theory Spec2Isabelle
  imports Complex_Main "HOL-Library.Sublist"
begin

section \<open>JavaScript strings and arrays\<close>

text \<open>
  A JavaScript string is a sequence of UTF-16 code units. The embedding uses
  \<open>string\<close> (a list of 8-bit characters), that is the code units 0 to 255 (ASCII and
  Latin-1). The character classes below are the ECMAScript classes restricted to that
  range: \<open>\d\<close> is \<open>[0-9]\<close>, \<open>\w\<close> is \<open>[A-Za-z0-9_]\<close>, and \<open>\s\<close> (also the
  characters removed by \<open>trim\<close>) is TAB, LF, VT, FF, CR, space and NBSP.
\<close>

definition dquote :: char where
  "dquote = CHR 0x22"

definition newline :: char where
  "newline = CHR 0x0A"

definition is_digit :: "char \<Rightarrow> bool" where
  "is_digit c = (48 \<le> (of_char c :: nat) \<and> (of_char c :: nat) \<le> 57)"

definition is_word :: "char \<Rightarrow> bool" where
  "is_word c =
     (is_digit c
      \<or> (65 \<le> (of_char c :: nat) \<and> (of_char c :: nat) \<le> 90)
      \<or> (97 \<le> (of_char c :: nat) \<and> (of_char c :: nat) \<le> 122)
      \<or> c = CHR ''_'')"

definition is_space :: "char \<Rightarrow> bool" where
  "is_space c =
     ((9 \<le> (of_char c :: nat) \<and> (of_char c :: nat) \<le> 13)
      \<or> c = CHR '' '' \<or> c = CHR 0xA0)"

text \<open>\<open>String.prototype.toLowerCase\<close> on the code units 0 to 255.\<close>

definition toLowerChar :: "char \<Rightarrow> char" where
  "toLowerChar c =
     (let n = (of_char c :: nat) in
      if (65 \<le> n \<and> n \<le> 90) \<or> (192 \<le> n \<and> n \<le> 222 \<and> n \<noteq> 215)
      then char_of (n + 32) else c)"

definition toLowerCase :: "string \<Rightarrow> string" where
  "toLowerCase s = map toLowerChar s"

definition trim :: "string \<Rightarrow> string" where
  "trim s = rev (dropWhile is_space (rev (dropWhile is_space s)))"

text \<open>\<open>s.startsWith(p)\<close> and \<open>s.includes(p)\<close>.\<close>

definition startsWith :: "string \<Rightarrow> string \<Rightarrow> bool" where
  "startsWith s p = (take (length p) s = p)"

fun includes_str :: "string \<Rightarrow> string \<Rightarrow> bool" where
  "includes_str [] p = (p = [])"
| "includes_str (c # cs) p = (startsWith (c # cs) p \<or> includes_str cs p)"

text \<open>
  \<open>s.split(sep)\<close> for a separator that is one character, or a one-character class
  such as \<open>/[;,]/\<close>: the pieces between the separators, empty pieces kept, so that the
  empty string gives one empty piece.
\<close>

fun split_where :: "(char \<Rightarrow> bool) \<Rightarrow> string \<Rightarrow> string \<Rightarrow> string list" where
  "split_where sep cur [] = [cur]"
| "split_where sep cur (c # cs) =
     (if sep c then cur # split_where sep [] cs else split_where sep (cur @ [c]) cs)"

definition split_char :: "char \<Rightarrow> string \<Rightarrow> string list" where
  "split_char sep s = split_where (\<lambda>c. c = sep) [] s"

text \<open>\<open>s.split(/\s+/)\<close>: a maximal run of white space is one separator.\<close>

function split_ws :: "string \<Rightarrow> string \<Rightarrow> string list" where
  "split_ws cur [] = [cur]"
| "split_ws cur (c # cs) =
     (if is_space c then cur # split_ws [] (dropWhile is_space cs)
      else split_ws (cur @ [c]) cs)"
  by pat_completeness auto
termination
proof (relation "measure (\<lambda>(cur, s). length s)")
  show "wf (measure (\<lambda>(cur, s). length s))" by simp
next
  fix cur :: string and c :: char and cs :: string
  have "length (dropWhile is_space cs) \<le> length cs"
    by (rule length_dropWhile_le)
  then show "(([], dropWhile is_space cs), (cur, c # cs))
      \<in> measure (\<lambda>(cur, s). length s)" by simp
next
  fix cur :: string and c :: char and cs :: string
  show "((cur @ [c], cs), (cur, c # cs)) \<in> measure (\<lambda>(cur, s). length s)" by simp
qed

text \<open>\<open>xs.join(sep)\<close>.\<close>

fun join :: "string \<Rightarrow> string list \<Rightarrow> string" where
  "join sep [] = []"
| "join sep [x] = x"
| "join sep (x # y # ys) = x @ sep @ join sep (y # ys)"

text \<open>\<open>a || b\<close> on strings: the empty string is the only falsy string.\<close>

definition js_or :: "string \<Rightarrow> string \<Rightarrow> string" where
  "js_or a b = (if a = [] then b else a)"

text \<open>\<open>xs.findIndex(p)\<close>, with \<open>None\<close> for the result -1.\<close>

fun findIndex :: "('a \<Rightarrow> bool) \<Rightarrow> 'a list \<Rightarrow> nat option" where
  "findIndex p [] = None"
| "findIndex p (x # xs) =
     (if p x then Some 0 else map_option Suc (findIndex p xs))"

text \<open>The decimal numeral of a natural number, as a template literal prints it.\<close>

fun showNat :: "nat \<Rightarrow> string" where
  "showNat n =
     (if n < 10 then [char_of (48 + n)]
      else showNat (n div 10) @ [char_of (48 + n mod 10)])"

text \<open>
  \<open>parseInt\<close> on a string of decimal digits (the only strings it is applied to here
  are four-digit matches of a regular expression).
\<close>

definition parseInt :: "string \<Rightarrow> int" where
  "parseInt s = foldl (\<lambda>n c. 10 * n + (int (of_char c) - 48)) 0 s"

section \<open>The data model (src/types/index.ts)\<close>

record PaperRecord =
  key :: string
  itemType :: string
  publicationYear :: "int option"
  authors :: "string list"
  title :: string
  publicationTitle :: string
  doi :: "string option"
  url :: "string option"
  abstract :: string
  tags :: "string list"
  venue :: string

section \<open>The CSV parser (src/data/csvParser.ts)\<close>

text \<open>
  \<open>parseCSVLine\<close>: one pass over the characters with the state
  \<open>(fields, current, inQuotes)\<close>. Every double quote flips \<open>inQuotes\<close> and is dropped.
\<close>

fun parseCSVLine_loop :: "string \<Rightarrow> string list \<Rightarrow> string \<Rightarrow> bool \<Rightarrow> string list" where
  "parseCSVLine_loop [] flds current inQuotes = flds @ [trim current]"
| "parseCSVLine_loop (c # cs) flds current inQuotes =
     (if c = dquote then parseCSVLine_loop cs flds current (\<not> inQuotes)
      else if c = CHR '','' \<and> \<not> inQuotes
        then parseCSVLine_loop cs (flds @ [trim current]) [] inQuotes
      else parseCSVLine_loop cs flds (current @ [c]) inQuotes)"

definition parseCSVLine :: "string \<Rightarrow> string list" where
  "parseCSVLine line = parseCSVLine_loop line [] [] False"

text \<open>
  \<open>cleanField\<close>: the global replace of \<open>/^"|"$/\<close> removes one leading and one trailing
  double quote, then the field is trimmed.
\<close>

definition cleanField :: "string \<Rightarrow> string" where
  "cleanField field =
     (let a = (case field of [] \<Rightarrow> [] | c # cs \<Rightarrow> if c = dquote then cs else c # cs);
          b = (if a \<noteq> [] \<and> last a = dquote then butlast a else a)
      in trim b)"

text \<open>
  \<open>parseYear\<close>: the leftmost match of \<open>/\b(19|20)\d{2}\b/\<close>. The scan carries whether the
  previous character is a word character (the left \<open>\b\<close>); the right \<open>\b\<close> looks at the
  character after the four digits.
\<close>

definition yearAt :: "bool \<Rightarrow> string \<Rightarrow> bool" where
  "yearAt prevWord s =
     (case s of
        a # b # c # d # rest \<Rightarrow>
          \<not> prevWord
          \<and> ((a = CHR ''1'' \<and> b = CHR ''9'') \<or> (a = CHR ''2'' \<and> b = CHR ''0''))
          \<and> is_digit c \<and> is_digit d
          \<and> (case rest of [] \<Rightarrow> True | r # _ \<Rightarrow> \<not> is_word r)
      | _ \<Rightarrow> False)"

fun yearMatch :: "bool \<Rightarrow> string \<Rightarrow> string option" where
  "yearMatch prevWord [] = None"
| "yearMatch prevWord (c # cs) =
     (if yearAt prevWord (c # cs) then Some (take 4 (c # cs))
      else yearMatch (is_word c) cs)"

definition parseYear :: "string \<Rightarrow> int option" where
  "parseYear yearStr =
     (if yearStr = [] then None
      else case yearMatch False yearStr of
        None \<Rightarrow> None
      | Some m \<Rightarrow>
          (let year = parseInt m in
           if year \<ge> 1990 \<and> year \<le> 2025 then Some year else None))"

text \<open>
  \<open>cleanAuthorName\<close> of the parser: \<open>/^(Dr\.|Prof\.|Mr\.|Ms\.|Mrs\.)\s*/i\<close> removes a
  title at the start with the white space after it; \<open>/\s*(Jr\.|Sr\.|III|IV)\.?$/i\<close>
  removes the leftmost match that reaches the end of the string, so what is left is the
  text before the first position where (after white space) only a suffix follows.
\<close>

definition stripTitle :: "string \<Rightarrow> string" where
  "stripTitle s =
     (case find (\<lambda>t. toLowerCase (take (length t) s) = t)
             [''dr.'', ''prof.'', ''mr.'', ''ms.'', ''mrs.''] of
        Some t \<Rightarrow> dropWhile is_space (drop (length t) s)
      | None \<Rightarrow> s)"

definition suffixAt :: "string \<Rightarrow> bool" where
  "suffixAt r =
     (toLowerCase (dropWhile is_space r)
        \<in> set [''jr.'', ''jr..'', ''sr.'', ''sr..'', ''iii'', ''iii.'', ''iv'', ''iv.''])"

fun stripSuffix :: "string \<Rightarrow> string" where
  "stripSuffix [] = []"
| "stripSuffix (c # cs) = (if suffixAt (c # cs) then [] else c # stripSuffix cs)"

definition csv_cleanAuthorName :: "string \<Rightarrow> string" where
  "csv_cleanAuthorName name = trim (stripSuffix (stripTitle name))"

text \<open>
  \<open>parseAuthors\<close>: \<open>split(/[;,&]|and\s+/)\<close>, then trim, drop the empty pieces, clean.
  At each position the class \<open>[;,&]\<close> is tried first, then \<open>and\<close> followed by at least
  one white space character (all of the run is consumed).
\<close>

function split_authors :: "string \<Rightarrow> string \<Rightarrow> string list" where
  "split_authors cur [] = [cur]"
| "split_authors cur (c # cs) =
     (if c = CHR '';'' \<or> c = CHR '','' \<or> c = CHR ''&''
        then cur # split_authors [] cs
      else if startsWith (c # cs) ''and'' \<and> drop 2 cs \<noteq> [] \<and> is_space (hd (drop 2 cs))
        then cur # split_authors [] (dropWhile is_space (drop 2 cs))
      else split_authors (cur @ [c]) cs)"
  by pat_completeness auto
termination
proof (relation "measure (\<lambda>(cur, s). length s)")
  show "wf (measure (\<lambda>(cur, s). length s))" by simp
next
  fix cur :: string and c :: char and cs :: string
  show "(([], cs), (cur, c # cs)) \<in> measure (\<lambda>(cur, s). length s)" by simp
next
  fix cur :: string and c :: char and cs :: string
  have "length (dropWhile is_space (drop 2 cs)) \<le> length (drop 2 cs)"
    by (rule length_dropWhile_le)
  then show "(([], dropWhile is_space (drop 2 cs)), (cur, c # cs))
      \<in> measure (\<lambda>(cur, s). length s)" by simp
next
  fix cur :: string and c :: char and cs :: string
  show "((cur @ [c], cs), (cur, c # cs)) \<in> measure (\<lambda>(cur, s). length s)" by simp
qed

definition parseAuthors :: "string \<Rightarrow> string list" where
  "parseAuthors authorsStr =
     (if authorsStr = [] then []
      else map csv_cleanAuthorName
             (filter (\<lambda>a. length a > 0) (map trim (split_authors [] authorsStr))))"

definition parseTags :: "string \<Rightarrow> string list" where
  "parseTags tagsStr =
     (if tagsStr = [] then []
      else filter (\<lambda>t. length t > 0)
             (map trim (split_where (\<lambda>c. c = CHR '';'' \<or> c = CHR '','') [] tagsStr)))"

text \<open>
  \<open>generateKey\<close>: the first author may be \<open>undefined\<close> (an empty author list), hence
  the option; \<open>undefined\<close> and the empty string are both falsy.
\<close>

definition generateKey :: "string \<Rightarrow> string option \<Rightarrow> string" where
  "generateKey ttl firstAuthor =
     (let titleWords = take 3 (split_ws [] (toLowerCase ttl));
          authorLastName =
            (case firstAuthor of
               None \<Rightarrow> []
             | Some a \<Rightarrow> if a = [] then [] else last (split_char CHR '' '' a))
      in toLowerCase authorLastName @ ''_'' @ join ''_'' titleWords)"

text \<open>
  \<open>getField\<close>, the closure of \<open>createPaperRecord\<close>: the candidate column names of a
  field, then for each candidate the first header equal to it or containing it (case
  folded); the candidate is taken when the field at that index is not blank.
\<close>

definition fieldMappings :: "(string \<times> string list) list" where
  "fieldMappings =
     [(''title'', [''Title'']),
      (''author'', [''Author'']),
      (''year'', [''Publication Year'']),
      (''abstract'', [''Abstract Note'']),
      (''doi'', [''DOI'']),
      (''url'', [''Url'']),
      (''type'', [''Item Type'']),
      (''venue'', [''Publication Title'']),
      (''key'', [''Key'']),
      (''tags'', [''Manual Tags'', ''Automatic Tags''])]"

definition possibleFields :: "string \<Rightarrow> string list" where
  "possibleFields fieldName =
     (case map_of fieldMappings (toLowerCase fieldName) of
        Some fs \<Rightarrow> fs
      | None \<Rightarrow> [fieldName])"

definition headerMatches :: "string \<Rightarrow> string \<Rightarrow> bool" where
  "headerMatches possibleField h =
     (toLowerCase h = toLowerCase possibleField
      \<or> includes_str (toLowerCase h) (toLowerCase possibleField))"

fun getField_loop :: "string list \<Rightarrow> string list \<Rightarrow> string list \<Rightarrow> string" where
  "getField_loop headers flds [] = []"
| "getField_loop headers flds (possibleField # rest) =
     (case findIndex (headerMatches possibleField) headers of
        Some index \<Rightarrow>
          if index < length flds \<and> flds ! index \<noteq> [] \<and> trim (flds ! index) \<noteq> []
          then cleanField (flds ! index)
          else getField_loop headers flds rest
      | None \<Rightarrow> getField_loop headers flds rest)"

definition getField :: "string list \<Rightarrow> string list \<Rightarrow> string \<Rightarrow> string" where
  "getField headers flds fieldName =
     getField_loop headers flds (possibleFields fieldName)"

definition createPaperRecord :: "string list \<Rightarrow> string list \<Rightarrow> PaperRecord option" where
  "createPaperRecord headers flds =
     (let gf = getField headers flds;
          ttl = gf ''title''
      in if ttl = [] then None
         else
           (let yearStr = js_or (gf ''year'') (gf ''date'');
                authorsStr = js_or (gf ''author'') (gf ''authors'');
                auths = parseAuthors authorsStr;
                manualTags = gf ''Manual Tags'';
                autoTags = gf ''Automatic Tags'';
                combinedTagsStr = join ''; '' (filter (\<lambda>t. t \<noteq> []) [manualTags, autoTags])
            in Some \<lparr>
                 key = js_or (gf ''key'')
                         (generateKey ttl (case auths of [] \<Rightarrow> None | a # _ \<Rightarrow> Some a)),
                 itemType = js_or (gf ''type'') (js_or (gf ''itemtype'') ''article''),
                 publicationYear = parseYear yearStr,
                 authors = auths,
                 title = ttl,
                 publicationTitle =
                   js_or (gf ''publication'') (js_or (gf ''journal'') (gf ''booktitle'')),
                 doi = Some (gf ''doi''),
                 url = Some (gf ''url''),
                 abstract = gf ''abstract'',
                 tags = parseTags combinedTagsStr,
                 venue = js_or (gf ''venue'') (js_or (gf ''publication'') (gf ''journal''))
               \<rparr>))"

text \<open>
  \<open>parseCSV\<close>: the headers are the comma-separated pieces of the first line, trimmed and
  without double quotes; every later line is trimmed, skipped when blank or when it has
  fewer fields than there are headers, and kept when \<open>createPaperRecord\<close> gives a record.
\<close>

fun parseCSV_rows :: "string list \<Rightarrow> string list \<Rightarrow> PaperRecord list \<Rightarrow> PaperRecord list" where
  "parseCSV_rows headers [] papers = papers"
| "parseCSV_rows headers (l # ls) papers =
     (let line = trim l in
      if line = [] then parseCSV_rows headers ls papers
      else
        (let flds = parseCSVLine line in
         if length flds < length headers then parseCSV_rows headers ls papers
         else case createPaperRecord headers flds of
                Some paper \<Rightarrow> parseCSV_rows headers ls (papers @ [paper])
              | None \<Rightarrow> parseCSV_rows headers ls papers))"

definition csvHeaders :: "string \<Rightarrow> string list" where
  "csvHeaders line0 = map (\<lambda>h. filter (\<lambda>c. c \<noteq> dquote) (trim h)) (split_char CHR '','' line0)"

definition parseCSV :: "string \<Rightarrow> PaperRecord list" where
  "parseCSV csvContent =
     (case split_char newline csvContent of
        [] \<Rightarrow> []
      | line0 # rest \<Rightarrow> parseCSV_rows (csvHeaders line0) rest [])"

text \<open>
  \<open>calculateQualityMetrics\<close>. JavaScript numbers are modelled by exact rationals
  together with the IEEE values that a division by zero produces: \<open>0/0\<close> is \<open>NaN\<close>,
  \<open>x/0\<close> is an infinity, and \<open>NaN\<close> and the infinities are kept by a multiplication with
  a positive constant. The current year (\<open>new Date().getFullYear()\<close>) is a parameter.
\<close>

datatype jsnum = Fin rat | PosInf | NegInf | NaN

definition js_div :: "rat \<Rightarrow> rat \<Rightarrow> jsnum" where
  "js_div a b =
     (if b = 0 then (if a = 0 then NaN else if a > 0 then PosInf else NegInf)
      else Fin (a / b))"

fun js_times :: "jsnum \<Rightarrow> rat \<Rightarrow> jsnum" where
  "js_times (Fin a) k = Fin (a * k)"
| "js_times PosInf k = (if k = 0 then NaN else if k > 0 then PosInf else NegInf)"
| "js_times NegInf k = (if k = 0 then NaN else if k > 0 then NegInf else PosInf)"
| "js_times NaN k = NaN"

record QualityIndicators =
  totalPapers :: nat
  doiCoverage :: jsnum
  urlCoverage :: jsnum
  abstractCoverage :: jsnum
  recentPapers :: jsnum

definition nonBlankOpt :: "string option \<Rightarrow> bool" where
  "nonBlankOpt v = (case v of None \<Rightarrow> False | Some s \<Rightarrow> s \<noteq> [] \<and> length (trim s) > 0)"

definition calculateQualityMetrics :: "int \<Rightarrow> PaperRecord list \<Rightarrow> QualityIndicators" where
  "calculateQualityMetrics currentYear papers =
     (let total = length papers;
          doiCount = length (filter (\<lambda>p. nonBlankOpt (doi p)) papers);
          urlCount = length (filter (\<lambda>p. nonBlankOpt (url p)) papers);
          abstractCount =
            length (filter (\<lambda>p. abstract p \<noteq> [] \<and> length (trim (abstract p)) > 0) papers);
          recentCount =
            length (filter (\<lambda>p. case publicationYear p of
                                  None \<Rightarrow> False
                                | Some y \<Rightarrow> y \<noteq> 0 \<and> y \<ge> currentYear - 5) papers)
      in \<lparr> totalPapers = total,
           doiCoverage = js_times (js_div (of_nat doiCount) (of_nat total)) 100,
           urlCoverage = js_times (js_div (of_nat urlCount) (of_nat total)) 100,
           abstractCoverage = js_times (js_div (of_nat abstractCount) (of_nat total)) 100,
           recentPapers = js_times (js_div (of_nat recentCount) (of_nat total)) 100 \<rparr>)"

section \<open>The enhanced CSV parser (src/unnamed/part_004)\<close>

text \<open>
  The second copy of the parser differs from the first in four places: the line parser
  reads two double quotes in a row as one literal double quote, the headers are read
  with the line parser, a row is skipped only when it has fewer than half as many fields
  as there are headers, and a record needs a title of at least five characters. Its
  \<open>cleanField\<close>, \<open>parseYear\<close>, \<open>parseAuthors\<close>, \<open>parseTags\<close>, \<open>generateKey\<close> and
  \<open>calculateQualityMetrics\<close> are the same text as in the first copy.
\<close>

fun parseCSVLine_part004_loop ::
  "string \<Rightarrow> string list \<Rightarrow> string \<Rightarrow> bool \<Rightarrow> string list" where
  "parseCSVLine_part004_loop [] flds current inQuotes = flds @ [trim current]"
| "parseCSVLine_part004_loop [c] flds current inQuotes =
     (if c = dquote then parseCSVLine_part004_loop [] flds current (\<not> inQuotes)
      else if c = CHR '','' \<and> \<not> inQuotes
        then parseCSVLine_part004_loop [] (flds @ [trim current]) [] inQuotes
      else parseCSVLine_part004_loop [] flds (current @ [c]) inQuotes)"
| "parseCSVLine_part004_loop (c # d # cs) flds current inQuotes =
     (if c = dquote then
        (if d = dquote then parseCSVLine_part004_loop cs flds (current @ [dquote]) inQuotes
         else parseCSVLine_part004_loop (d # cs) flds current (\<not> inQuotes))
      else if c = CHR '','' \<and> \<not> inQuotes
        then parseCSVLine_part004_loop (d # cs) (flds @ [trim current]) [] inQuotes
      else parseCSVLine_part004_loop (d # cs) flds (current @ [c]) inQuotes)"

definition parseCSVLine_part004 :: "string \<Rightarrow> string list" where
  "parseCSVLine_part004 line = parseCSVLine_part004_loop line [] [] False"

definition headerMatches_part004 :: "string \<Rightarrow> string \<Rightarrow> bool" where
  "headerMatches_part004 possibleField h =
     (h \<noteq> [] \<and> (toLowerCase h = toLowerCase possibleField
                \<or> includes_str (toLowerCase h) (toLowerCase possibleField)))"

fun getField_part004_loop :: "string list \<Rightarrow> string list \<Rightarrow> string list \<Rightarrow> string" where
  "getField_part004_loop headers flds [] = []"
| "getField_part004_loop headers flds (possibleField # rest) =
     (case findIndex (headerMatches_part004 possibleField) headers of
        Some index \<Rightarrow>
          if index < length flds \<and> flds ! index \<noteq> [] \<and> trim (flds ! index) \<noteq> []
          then cleanField (flds ! index)
          else getField_part004_loop headers flds rest
      | None \<Rightarrow> getField_part004_loop headers flds rest)"

definition getField_part004 :: "string list \<Rightarrow> string list \<Rightarrow> string \<Rightarrow> string" where
  "getField_part004 headers flds fieldName =
     getField_part004_loop headers flds (possibleFields fieldName)"

definition createPaperRecord_part004 :: "string list \<Rightarrow> string list \<Rightarrow> PaperRecord option" where
  "createPaperRecord_part004 headers flds =
     (let gf = getField_part004 headers flds;
          ttl = gf ''title''
      in if ttl = [] \<or> length ttl < 5 then None
         else
           (let yearStr = js_or (gf ''year'') (gf ''date'');
                authorsStr = js_or (gf ''author'') (gf ''authors'');
                auths = parseAuthors authorsStr;
                manualTags = gf ''Manual Tags'';
                autoTags = gf ''Automatic Tags'';
                combinedTagsStr = join ''; '' (filter (\<lambda>t. t \<noteq> []) [manualTags, autoTags])
            in Some \<lparr>
                 key = js_or (gf ''key'')
                         (generateKey ttl
                            (Some (case auths of [] \<Rightarrow> ''unknown''
                                   | a # _ \<Rightarrow> js_or a ''unknown''))),
                 itemType = js_or (gf ''type'') (js_or (gf ''itemtype'') ''article''),
                 publicationYear = parseYear yearStr,
                 authors = (if length auths > 0 then auths else [''Unknown Author'']),
                 title = ttl,
                 publicationTitle = js_or (gf ''venue'') (gf ''Publication Title''),
                 doi = Some (gf ''doi''),
                 url = Some (gf ''url''),
                 abstract = gf ''abstract'',
                 tags = parseTags combinedTagsStr,
                 venue = js_or (gf ''venue'') (gf ''Publication Title'')
               \<rparr>))"

fun parseCSV_part004_rows ::
  "string list \<Rightarrow> string list \<Rightarrow> PaperRecord list \<Rightarrow> PaperRecord list" where
  "parseCSV_part004_rows headers [] papers = papers"
| "parseCSV_part004_rows headers (l # ls) papers =
     (let line = trim l in
      if line = [] then parseCSV_part004_rows headers ls papers
      else
        (let flds = parseCSVLine_part004 line in
         if 2 * length flds < length headers then parseCSV_part004_rows headers ls papers
         else case createPaperRecord_part004 headers flds of
                Some paper \<Rightarrow> parseCSV_part004_rows headers ls (papers @ [paper])
              | None \<Rightarrow> parseCSV_part004_rows headers ls papers))"

definition csvHeaders_part004 :: "string \<Rightarrow> string list" where
  "csvHeaders_part004 line0 =
     map (\<lambda>h. filter (\<lambda>c. c \<noteq> dquote) (trim h)) (parseCSVLine_part004 line0)"

definition parseCSV_part004 :: "string \<Rightarrow> PaperRecord list" where
  "parseCSV_part004 csvContent =
     (let lines = split_char newline csvContent in
      if length lines < 2 then []
      else case lines of
             [] \<Rightarrow> []
           | line0 # rest \<Rightarrow> parseCSV_part004_rows (csvHeaders_part004 line0) rest [])"

section \<open>Validation and cleaning (src/utils/dataValidation.ts)\<close>

record ValidationResult =
  isValid :: bool
  errors :: "string list"
  warnings :: "string list"

text \<open>A JavaScript integer printed in a template literal.\<close>

definition showInt :: "int \<Rightarrow> string" where
  "showInt i = (if i < 0 then ''-'' @ showNat (nat (- i)) else showNat (nat i))"

text \<open>
  \<open>isValidDOI\<close>: \<open>/^10\.\d{4,}\/\S+$/\<close> on the trimmed string, that is \<open>10.\<close>, a run of
  at least four digits, a slash, and at least one more character, none of them white
  space.
\<close>

definition isValidDOI :: "string \<Rightarrow> bool" where
  "isValidDOI d =
     (let t = trim d;
          r = drop 3 t;
          digits = takeWhile is_digit r;
          rest = dropWhile is_digit r
      in startsWith t ''10.'' \<and> length digits \<ge> 4
         \<and> (case rest of
               [] \<Rightarrow> False
             | c # tail \<Rightarrow> c = CHR ''/'' \<and> tail \<noteq> [] \<and> list_all (\<lambda>x. \<not> is_space x) tail))"

text \<open>
  \<open>isValidAuthorName\<close>. The last test, \<open>specialCharCount > trimmed.length * 0.3\<close>, is a
  comparison of an integer with three tenths of an integer, written here without the
  fraction.
\<close>

definition is_letter :: "char \<Rightarrow> bool" where
  "is_letter c =
     ((65 \<le> (of_char c :: nat) \<and> (of_char c :: nat) \<le> 90)
      \<or> (97 \<le> (of_char c :: nat) \<and> (of_char c :: nat) \<le> 122))"

definition isValidAuthorName :: "string \<Rightarrow> bool" where
  "isValidAuthorName name =
     (let trimmed = trim name;
          specialCharCount =
            length (filter (\<lambda>c. \<not> (is_letter c \<or> is_digit c \<or> is_space c
                                    \<or> c = CHR ''-'' \<or> c = CHR ''.'')) trimmed)
      in if length trimmed < 2 then False
         else if \<not> list_ex is_letter trimmed then False
         else if trimmed \<noteq> [] \<and> list_all is_digit trimmed then False
         else if 10 * specialCharCount > 3 * length trimmed then False
         else True)"

text \<open>
  \<open>validatePaperRecord\<close>. \<open>isValidURL\<close> asks the platform whether \<open>new URL(url)\<close>
  throws; that answer is the parameter \<open>urlParses\<close>.
\<close>

fun authorWarnings :: "nat \<Rightarrow> string list \<Rightarrow> string list" where
  "authorWarnings index [] = []"
| "authorWarnings index (author # rest) =
     (if \<not> isValidAuthorName author
      then [''Author name at index '' @ showNat index @ '' may be malformed: '' @ [dquote]
              @ author @ [dquote]]
      else [])
     @ authorWarnings (Suc index) rest"

definition validatePaperRecord :: "(string \<Rightarrow> bool) \<Rightarrow> PaperRecord \<Rightarrow> ValidationResult" where
  "validatePaperRecord urlParses paper =
     (let errs = (if title paper = [] \<or> length (trim (title paper)) = 0
                  then [''Title is required''] else []);
          w1 = (if length (authors paper) = 0 then [''No authors specified''] else []);
          w2 = (case publicationYear paper of
                  Some y \<Rightarrow>
                    if y < 1990 \<or> y > 2025
                    then [''Publication year '' @ showInt y
                            @ '' is outside expected range (1990-2025)'']
                    else []
                | None \<Rightarrow> [''Publication year is missing'']);
          w3 = (case doi paper of
                  Some d \<Rightarrow> if d \<noteq> [] \<and> \<not> isValidDOI d
                            then [''DOI format appears invalid''] else []
                | None \<Rightarrow> []);
          w4 = (case url paper of
                  Some u \<Rightarrow> if u \<noteq> [] \<and> \<not> urlParses u
                            then [''URL format appears invalid''] else []
                | None \<Rightarrow> []);
          w5 = authorWarnings 0 (authors paper)
      in \<lparr> isValid = (length errs = 0), errors = errs, warnings = w1 @ w2 @ w3 @ w4 @ w5 \<rparr>)"

record DatasetStats =
  stats_totalPapers :: nat
  stats_validPapers :: nat
  papersWithWarnings :: nat
  duplicateKeys :: "string list"

record DatasetValidation =
  validPapers :: "PaperRecord list"
  invalidPapers :: "(PaperRecord \<times> ValidationResult) list"
  overallStats :: DatasetStats

text \<open>
  \<open>validatePaperDataset\<close>: the \<open>forEach\<close> with its five accumulators (the valid papers,
  the invalid papers with their validation, the set of keys seen, the duplicate keys,
  the count of valid papers with warnings).
\<close>

fun validatePaperDataset_loop ::
  "(string \<Rightarrow> bool) \<Rightarrow> PaperRecord list \<Rightarrow>
   PaperRecord list \<times> (PaperRecord \<times> ValidationResult) list \<times> string set \<times> string list \<times> nat \<Rightarrow>
   PaperRecord list \<times> (PaperRecord \<times> ValidationResult) list \<times> string set \<times> string list \<times> nat"
where
  "validatePaperDataset_loop urlParses [] st = st"
| "validatePaperDataset_loop urlParses (paper # rest) (valid, invalid, keysSeen, dups, nwarn) =
     (let dups' = (if key paper \<in> keysSeen then dups @ [key paper] else dups);
          keysSeen' = insert (key paper) keysSeen;
          validation = validatePaperRecord urlParses paper
      in if isValid validation
         then validatePaperDataset_loop urlParses rest
                (valid @ [paper], invalid, keysSeen', dups',
                 (if length (warnings validation) > 0 then nwarn + 1 else nwarn))
         else validatePaperDataset_loop urlParses rest
                (valid, invalid @ [(paper, validation)], keysSeen', dups', nwarn))"

definition validatePaperDataset :: "(string \<Rightarrow> bool) \<Rightarrow> PaperRecord list \<Rightarrow> DatasetValidation" where
  "validatePaperDataset urlParses papers =
     (case validatePaperDataset_loop urlParses papers ([], [], {}, [], 0) of
        (valid, invalid, keysSeen, dups, nwarn) \<Rightarrow>
          \<lparr> validPapers = valid,
            invalidPapers = invalid,
            overallStats = \<lparr> stats_totalPapers = length papers,
                             stats_validPapers = length valid,
                             papersWithWarnings = nwarn,
                             duplicateKeys = dups \<rparr> \<rparr>)"

text \<open>
  \<open>normalizeTitleForComparison\<close>: lower case, \<open>/[^\w\s]/g\<close> removed, every run of white
  space replaced by one space, trimmed.
\<close>

function collapse_ws :: "string \<Rightarrow> string" where
  "collapse_ws [] = []"
| "collapse_ws (c # cs) =
     (if is_space c then CHR '' '' # collapse_ws (dropWhile is_space cs)
      else c # collapse_ws cs)"
  by pat_completeness auto
termination
proof (relation "measure length")
  show "wf (measure length)" by simp
next
  fix c :: char and cs :: string
  have "length (dropWhile is_space cs) \<le> length cs"
    by (rule length_dropWhile_le)
  then show "(dropWhile is_space cs, c # cs) \<in> measure length" by simp
next
  fix c :: char and cs :: string
  show "(cs, c # cs) \<in> measure length" by simp
qed

definition normalizeTitleForComparison :: "string \<Rightarrow> string" where
  "normalizeTitleForComparison ttl =
     trim (collapse_ws (filter (\<lambda>c. is_word c \<or> is_space c) (toLowerCase ttl)))"

text \<open>\<open>removeDuplicatePapers\<close>: the \<open>forEach\<close> with the list of kept papers and the set of
  normalized titles seen.\<close>

fun removeDuplicatePapers_loop ::
  "PaperRecord list \<Rightarrow> PaperRecord list \<Rightarrow> string set \<Rightarrow> PaperRecord list" where
  "removeDuplicatePapers_loop [] uniquePapers seenTitles = uniquePapers"
| "removeDuplicatePapers_loop (paper # rest) uniquePapers seenTitles =
     (let normalizedTitle = normalizeTitleForComparison (title paper) in
      if normalizedTitle \<notin> seenTitles
      then removeDuplicatePapers_loop rest (uniquePapers @ [paper])
             (insert normalizedTitle seenTitles)
      else removeDuplicatePapers_loop rest uniquePapers seenTitles)"

definition removeDuplicatePapers :: "PaperRecord list \<Rightarrow> PaperRecord list" where
  "removeDuplicatePapers papers = removeDuplicatePapers_loop papers [] {}"

section \<open>Topic classification (src/utils/textAnalysis.ts)\<close>

definition TOPIC_KEYWORDS :: "(string \<times> string list) list" where
  "TOPIC_KEYWORDS =
     [(''security'',
        [''security'', ''cybersecurity'', ''cyber'', ''attack'', ''defense'', ''threat'',
         ''vulnerability'', ''malware'', ''intrusion'', ''breach'', ''protection'', ''secure'',
         ''encryption'', ''authentication'', ''authorization'', ''firewall'', ''ids'', ''ips'',
         ''forensics'', ''incident'']),
      (''economics'',
        [''economic'', ''economics'', ''cost'', ''benefit'', ''investment'', ''roi'', ''market'',
         ''price'', ''pricing'', ''incentive'', ''utility'', ''profit'', ''loss'', ''budget'',
         ''financial'', ''monetary'', ''value'', ''worth'', ''expense'', ''revenue'',
         ''insurance'']),
      (''risk'',
        [''risk'', ''risks'', ''risky'', ''uncertainty'', ''probability'', ''likelihood'',
         ''assessment'', ''management'', ''mitigation'', ''analysis'', ''evaluation'',
         ''measurement'', ''quantification'', ''modeling'', ''prediction'', ''forecast'',
         ''scenario'', ''impact'', ''consequence'']),
      (''aiml'',
        [''artificial'', ''intelligence'', ''machine'', ''learning'', ''neural'', ''network'',
         ''deep'', ''algorithm'', ''model'', ''training'', ''classification'', ''prediction'',
         ''ai'', ''ml'', ''data'', ''mining'', ''pattern'', ''recognition'', ''automation'',
         ''cognitive'']),
      (''gameTheory'',
        [''game'', ''theory'', ''strategic'', ''player'', ''strategy'', ''equilibrium'', ''nash'',
         ''payoff'', ''cooperation'', ''competition'', ''coalition'', ''bargaining'', ''auction'',
         ''mechanism'', ''design'', ''optimal'', ''decision'', ''rational'', ''behavior'']),
      (''network'',
        [''network'', ''networks'', ''networking'', ''topology'', ''node'', ''edge'', ''graph'',
         ''connectivity'', ''routing'', ''protocol'', ''communication'', ''distributed'',
         ''peer'', ''client'', ''server'', ''infrastructure'', ''internet'', ''web'']),
      (''privacy'',
        [''privacy'', ''private'', ''confidential'', ''anonymous'', ''anonymity'', ''personal'',
         ''data'', ''information'', ''disclosure'', ''sharing'', ''protection'', ''gdpr'',
         ''compliance'', ''consent'', ''tracking'', ''surveillance'', ''identity''])]"

text \<open>
  The number of matches of \<open>new RegExp(`\\b${keyword}\\b`, 'gi')\<close> in a text, for a
  keyword made of word characters (every keyword of the table is made of lower-case
  letters, and the text is already in lower case). The scan goes left to right; a match
  needs no word character right before it (the flag \<open>prevWord\<close>) and none right after
  it, and the scan goes on after the match.
\<close>

function countMatches :: "string \<Rightarrow> bool \<Rightarrow> string \<Rightarrow> nat" where
  "countMatches keyword prevWord [] = 0"
| "countMatches keyword prevWord (c # cs) =
     (if keyword \<noteq> [] \<and> \<not> prevWord \<and> startsWith (c # cs) keyword
         \<and> (case drop (length keyword) (c # cs) of [] \<Rightarrow> True | r # _ \<Rightarrow> \<not> is_word r)
      then 1 + countMatches keyword True (drop (length keyword) (c # cs))
      else countMatches keyword (is_word c) cs)"
  by pat_completeness auto
termination
proof (relation "measure (\<lambda>(keyword, prevWord, s). length s)")
  show "wf (measure (\<lambda>(keyword, prevWord, s). length s))" by simp
next
  fix keyword :: string and prevWord :: bool and c :: char and cs :: string
  assume "keyword \<noteq> [] \<and> \<not> prevWord \<and> startsWith (c # cs) keyword
     \<and> (case drop (length keyword) (c # cs) of [] \<Rightarrow> True | r # _ \<Rightarrow> \<not> is_word r)"
  then have "0 < length keyword" by simp
  then show "((keyword, True, drop (length keyword) (c # cs)), (keyword, prevWord, c # cs))
      \<in> measure (\<lambda>(keyword, prevWord, s). length s)" by simp
next
  fix keyword :: string and prevWord :: bool and c :: char and cs :: string
  show "((keyword, is_word c, cs), (keyword, prevWord, c # cs))
      \<in> measure (\<lambda>(keyword, prevWord, s). length s)" by simp
qed

definition fullText :: "PaperRecord \<Rightarrow> string" where
  "fullText paper =
     toLowerCase (title paper @ '' '' @ abstract paper @ '' '' @ join '' '' (tags paper))"

definition topicScore :: "string \<Rightarrow> string list \<Rightarrow> nat" where
  "topicScore text keywords = sum_list (map (\<lambda>keyword. countMatches keyword False text) keywords)"

text \<open>
  \<open>classifyPaperTopics\<close>: for every topic of the table, in its order, the score divided
  by \<open>Math.max(fullText.length / 100, 1)\<close>. Numbers are exact rationals.
\<close>

definition classifyPaperTopics :: "PaperRecord \<Rightarrow> (string \<times> rat) list" where
  "classifyPaperTopics paper =
     map (\<lambda>(topic, keywords).
            (topic, of_nat (topicScore (fullText paper) keywords)
                      / max (of_nat (length (fullText paper)) / 100) 1))
         TOPIC_KEYWORDS"

section \<open>Author names (src/utils/authorAnalysis.ts)\<close>

text \<open>
  \<open>cleanAuthorName\<close> of the author analysis: trim, remove a title at the start and a
  suffix at the end (the two regular expressions of the parser's function of the same
  name), replace every run of white space by one space, lower case.
\<close>

definition cleanAuthorName :: "string \<Rightarrow> string" where
  "cleanAuthorName name = toLowerCase (collapse_ws (stripSuffix (stripTitle (trim name))))"

text \<open>
  \<open>areAuthorNamesSimilar\<close>. The loop counts the matching positions of two token lists
  of the same length. The last test (two tokens each, in swapped order) is written as in
  the source, after the return of the branch for token lists of equal length.
\<close>

fun countPartMatches :: "string list \<Rightarrow> string list \<Rightarrow> nat" where
  "countPartMatches (part1 # rest1) (part2 # rest2) =
     (if part1 = part2 then 1
      else if length part1 = 1 \<and> startsWith part2 part1 then 1
      else if length part2 = 1 \<and> startsWith part1 part2 then 1
      else 0) + countPartMatches rest1 rest2"
| "countPartMatches _ _ = 0"

definition areAuthorNamesSimilar :: "string \<Rightarrow> string \<Rightarrow> bool" where
  "areAuthorNamesSimilar name1 name2 =
     (if name1 = name2 then True
      else
        (let parts1 = split_char CHR '' '' name1;
             parts2 = split_char CHR '' '' name2
         in if length parts1 = length parts2
            then countPartMatches parts1 parts2 = length parts1
            else if length parts1 = 2 \<and> length parts2 = 2
              then parts1 ! 0 = parts2 ! 1 \<and> parts1 ! 1 = parts2 ! 0
            else False))"

section \<open>Topical research gaps (src/utils/researchGapAnalysis.ts)\<close>

text \<open>
  The records of the analysis. Field names that other records or HOL already use carry a
  prefix: \<open>cluster_id\<close>, \<open>cluster_size\<close> and \<open>cluster_papers\<close> are \<open>id\<close>, \<open>size\<close> and
  \<open>papers\<close> of \<open>TopicCluster\<close>; \<open>gap_id\<close>, \<open>gap_type\<close> and \<open>gap_title\<close> are \<open>id\<close>,
  \<open>type\<close> and \<open>title\<close> of \<open>ResearchGap\<close>; \<open>evidence_potentialImpact\<close> is
  \<open>evidence.potentialImpact\<close>. Numbers that are not integers are exact rationals.
\<close>

record TopicCluster =
  cluster_id :: string
  label :: string
  cluster_size :: nat
  cluster_papers :: "PaperRecord list"
  connections :: "string list"
  coverage :: rat

record TopicIntersection =
  topics :: "string list"
  combinedLabel :: string
  expectedPapers :: int
  actualPapers :: nat
  gapSize :: int
  potentialImpact :: rat

record YearRange =
  startYear :: int
  endYear :: int
  range_expectedPapers :: int
  range_actualPapers :: nat
  range_gapSize :: int

datatype Severity = high | medium | low

datatype GapType = topical | temporal | methodological | geographic

text \<open>
  \<open>supportingData\<close> has the type \<open>any\<close>: for a gap of a topic pair it is the object
  \<open>{expectedPapers, actualPapers, gapSize}\<close>, for the gap of the stagnant topics it is
  \<open>{stagnantTopics, emergingTopics}\<close>.
\<close>

datatype SupportingData =
  IntersectionData int nat int
| TopicTrendData "string list" "string list"

record Evidence =
  underRepresentedTopics :: "string list"
  citationGaps :: "PaperRecord list"
  temporalGaps :: "YearRange list"
  evidence_potentialImpact :: rat
  supportingData :: SupportingData

record ResearchGap =
  gap_id :: string
  gap_type :: GapType
  gap_title :: string
  description :: string
  severity :: Severity
  evidence :: Evidence
  recommendations :: "string list"
  opportunityScore :: rat

text \<open>\<open>Math.round\<close>: the nearest integer, halves rounded up.\<close>

definition js_round :: "rat \<Rightarrow> int" where
  "js_round x = \<lfloor>x + 1 / 2\<rfloor>"

text \<open>
  \<open>assessDomainDifference\<close>: the loop over the three domains assigns the domain of each
  topic (the last domain that lists it; \<open>other\<close> when none does).
\<close>

definition domains :: "(string \<times> string list) list" where
  "domains =
     [(''technical'', [''AI/ML'', ''Network'', ''Privacy'']),
      (''economic'', [''Economics'', ''Risk Management'']),
      (''theoretical'', [''Game Theory'', ''Security''])]"

definition domainOf :: "string \<Rightarrow> string" where
  "domainOf topic =
     foldl (\<lambda>d (domain, ts). if topic \<in> set ts then domain else d) ''other'' domains"

definition assessDomainDifference :: "string \<Rightarrow> string \<Rightarrow> rat" where
  "assessDomainDifference topic1 topic2 =
     (if domainOf topic1 \<noteq> domainOf topic2 then 3 / 2 else 1)"

definition calculateTopicComplementarity :: "TopicCluster \<Rightarrow> TopicCluster \<Rightarrow> rat" where
  "calculateTopicComplementarity topic1 topic2 =
     (let importanceScore = (coverage topic1 + coverage topic2) / 200;
          domainDifference = assessDomainDifference (label topic1) (label topic2)
      in min 1 (importanceScore * domainDifference))"

text \<open>
  \<open>findTopicIntersections\<close>: the body of the two nested iterations for one pair of
  topics (\<open>None\<close> when nothing is pushed), the inner one over the later topics, the outer one,
  and the final stable sort by descending gap size. \<open>n\<close> is \<open>this.papers.length\<close>.
\<close>

definition topicIntersection :: "nat \<Rightarrow> TopicCluster \<Rightarrow> TopicCluster \<Rightarrow> TopicIntersection option" where
  "topicIntersection n topic1 topic2 =
     (let intersection =
            filter (\<lambda>p1. list_ex (\<lambda>p2. key p2 = key p1) (cluster_papers topic2))
              (cluster_papers topic1);
          expectedRatio = (coverage topic1 / 100) * (coverage topic2 / 100);
          expected = js_round (of_nat n * expectedRatio * (3 / 10));
          actual = length intersection;
          gap = max 0 (expected - int actual);
          impact = calculateTopicComplementarity topic1 topic2
      in if gap > 0
         then Some \<lparr> topics = [label topic1, label topic2],
                      combinedLabel = label topic1 @ '' + '' @ label topic2,
                      expectedPapers = expected,
                      actualPapers = actual,
                      gapSize = gap,
                      potentialImpact = impact \<rparr>
         else None)"

fun findTopicIntersections_inner ::
  "nat \<Rightarrow> TopicCluster \<Rightarrow> TopicCluster list \<Rightarrow> TopicIntersection list \<Rightarrow> TopicIntersection list"
where
  "findTopicIntersections_inner n topic1 [] intersections = intersections"
| "findTopicIntersections_inner n topic1 (topic2 # rest) intersections =
     (case topicIntersection n topic1 topic2 of
        Some x \<Rightarrow> findTopicIntersections_inner n topic1 rest (intersections @ [x])
      | None \<Rightarrow> findTopicIntersections_inner n topic1 rest intersections)"

fun findTopicIntersections_outer ::
  "nat \<Rightarrow> TopicCluster list \<Rightarrow> TopicIntersection list \<Rightarrow> TopicIntersection list" where
  "findTopicIntersections_outer n [] intersections = intersections"
| "findTopicIntersections_outer n (topic1 # rest) intersections =
     findTopicIntersections_outer n rest
       (findTopicIntersections_inner n topic1 rest intersections)"

definition findTopicIntersections :: "nat \<Rightarrow> TopicCluster list \<Rightarrow> TopicIntersection list" where
  "findTopicIntersections n topicClusters =
     sort_key (\<lambda>x. - gapSize x) (findTopicIntersections_outer n topicClusters [])"

text \<open>
  \<open>identifyEmergingTopics\<close> and \<open>identifyStagnantTopics\<close>. For a topic with no paper the
  ratio is \<open>0/0\<close>, that is \<open>NaN\<close>, and both comparisons are false.
\<close>

definition recentCount :: "int \<Rightarrow> int \<Rightarrow> TopicCluster \<Rightarrow> nat" where
  "recentCount currentYear recentYears topic =
     length (filter (\<lambda>p. case publicationYear p of
                             None \<Rightarrow> False
                           | Some y \<Rightarrow> y \<noteq> 0 \<and> y \<ge> currentYear - recentYears)
               (cluster_papers topic))"

definition identifyEmergingTopics :: "int \<Rightarrow> TopicCluster list \<Rightarrow> string list" where
  "identifyEmergingTopics currentYear topicClusters =
     map label
       (filter (\<lambda>topic. length (cluster_papers topic) \<noteq> 0
                  \<and> (of_nat (recentCount currentYear 3 topic) :: rat)
                       / of_nat (length (cluster_papers topic)) > 4 / 10)
          topicClusters)"

definition identifyStagnantTopics :: "int \<Rightarrow> TopicCluster list \<Rightarrow> string list" where
  "identifyStagnantTopics currentYear topicClusters =
     map label
       (filter (\<lambda>topic. length (cluster_papers topic) \<noteq> 0
                  \<and> (of_nat (recentCount currentYear 5 topic) :: rat)
                       / of_nat (length (cluster_papers topic)) < 2 / 10
                  \<and> length (cluster_papers topic) > 10)
          topicClusters)"

text \<open>
  \<open>analyzeTopicalGaps\<close>: one gap for every intersection with a gap size above 5 and a
  potential impact above 0.7, numbered in order, then one more gap when there are
  stagnant topics.
\<close>

definition intersectionGap :: "nat \<Rightarrow> TopicIntersection \<Rightarrow> ResearchGap" where
  "intersectionGap index x =
     \<lparr> gap_id = ''topical_'' @ showNat index,
       gap_type = topical,
       gap_title = ''Under-researched: '' @ combinedLabel x,
       description = ''The intersection of '' @ join '' and '' (topics x)
          @ '' shows significant research potential but limited current coverage.'',
       severity = (if gapSize x > 15 then high else if gapSize x > 10 then medium else low),
       evidence = \<lparr> underRepresentedTopics = topics x,
                    citationGaps = [],
                    temporalGaps = [],
                    evidence_potentialImpact = potentialImpact x,
                    supportingData =
                      IntersectionData (expectedPapers x) (actualPapers x) (gapSize x) \<rparr>,
       recommendations =
         [''Investigate '' @ combinedLabel x @ '' applications in real-world scenarios'',
          ''Develop theoretical frameworks combining '' @ join '' and '' (topics x),
          ''Conduct empirical studies bridging these research areas'',
          ''Explore policy implications of '' @ combinedLabel x],
       opportunityScore = potentialImpact x * (of_int (gapSize x) / 20) * 100 \<rparr>"

definition stagnantGap :: "string list \<Rightarrow> string list \<Rightarrow> ResearchGap" where
  "stagnantGap stagnantTopics emergingTopics =
     \<lparr> gap_id = ''topical_stagnant'',
       gap_type = topical,
       gap_title = ''Stagnant Research Areas'',
       description = ''Several research areas show declining activity and may need revitalization or new approaches.'',
       severity = medium,
       evidence = \<lparr> underRepresentedTopics = stagnantTopics,
                    citationGaps = [],
                    temporalGaps = [],
                    evidence_potentialImpact = 6 / 10,
                    supportingData = TopicTrendData stagnantTopics emergingTopics \<rparr>,
       recommendations =
         [''Re-examine fundamental assumptions in stagnant areas'',
          ''Apply new methodologies to traditional problems'',
          ''Explore connections with emerging technologies'',
          ''Consider interdisciplinary approaches''],
       opportunityScore = 60 \<rparr>"

definition underResearchedIntersections :: "nat \<Rightarrow> TopicCluster list \<Rightarrow> TopicIntersection list" where
  "underResearchedIntersections n topicClusters =
     filter (\<lambda>x. gapSize x > 5 \<and> potentialImpact x > 7 / 10)
       (findTopicIntersections n topicClusters)"

definition analyzeTopicalGaps :: "int \<Rightarrow> nat \<Rightarrow> TopicCluster list \<Rightarrow> ResearchGap list" where
  "analyzeTopicalGaps currentYear n topicClusters =
     (let under = underResearchedIntersections n topicClusters;
          gaps = map (\<lambda>(index, x). intersectionGap index x) (zip [0..<length under] under);
          emergingTopics = identifyEmergingTopics currentYear topicClusters;
          stagnantTopics = identifyStagnantTopics currentYear topicClusters
      in if length stagnantTopics > 0
         then gaps @ [stagnantGap stagnantTopics emergingTopics]
         else gaps)"

section \<open>Vocabulary of the properties\<close>

text \<open>
  A year token of a string: four decimal digits at position \<open>i\<close> with value \<open>y\<close>, with no
  word character right before or right after them.
\<close>

definition yearTokenAt :: "string \<Rightarrow> nat \<Rightarrow> int \<Rightarrow> bool" where
  "yearTokenAt s i y =
     (i + 4 \<le> length s
      \<and> list_all is_digit (take 4 (drop i s))
      \<and> parseInt (take 4 (drop i s)) = y
      \<and> (i = 0 \<or> \<not> is_word (s ! (i - 1)))
      \<and> (i + 4 = length s \<or> \<not> is_word (s ! (i + 4))))"

text \<open>
  The usual CSV encoding of a field value as a double-quoted field: the value between two
  double quotes, each double quote of the value doubled.
\<close>

definition csvEscape :: "string \<Rightarrow> string" where
  "csvEscape s = concat (map (\<lambda>c. if c = dquote then [dquote, dquote] else [c]) s)"

definition csvQuote :: "string \<Rightarrow> string" where
  "csvQuote s = dquote # csvEscape s @ [dquote]"

text \<open>
  A CSV line is a list of fields joined by commas. A field is written bare (then its
  value has no comma and no double quote) or double-quoted (any value). A value made of
  double quotes only, the empty value included, is set apart.
\<close>

datatype csvField = Quoted string | Bare string

fun fieldValue :: "csvField \<Rightarrow> string" where
  "fieldValue (Quoted s) = s"
| "fieldValue (Bare s) = s"

fun encodeField :: "csvField \<Rightarrow> string" where
  "encodeField (Quoted s) = csvQuote s"
| "encodeField (Bare s) = s"

fun wellFormedField :: "csvField \<Rightarrow> bool" where
  "wellFormedField (Quoted s) = True"
| "wellFormedField (Bare s) = (dquote \<notin> set s \<and> CHR '','' \<notin> set s)"

fun onlyQuotes :: "csvField \<Rightarrow> bool" where
  "onlyQuotes (Quoted s) = list_all (\<lambda>c. c = dquote) s"
| "onlyQuotes (Bare s) = False"

definition encodeLine :: "csvField list \<Rightarrow> string" where
  "encodeLine fs = join '','' (map encodeField fs)"

text \<open>What the second parser collects for a field, before trimming.\<close>

definition part004Collects :: "csvField \<Rightarrow> string" where
  "part004Collects f = (if onlyQuotes f then fieldValue f @ [dquote] else fieldValue f)"

text \<open>
  The test fixture \<open>sampleCSVData\<close> of src/tests/dataProcessing.test.ts: a template
  literal of three lines, separated by line feeds.
\<close>

definition sampleCSVData_header :: string where
  "sampleCSVData_header = ''Title,Author,Publication Year,Abstract,DOI,URL,Item Type,Venue''"

definition sampleCSVData_row1 :: string where
  "sampleCSVData_row1 =
     [dquote] @ ''Test Paper 1'' @ [dquote] @ '','' @
     [dquote] @ ''John Doe; Jane Smith'' @ [dquote] @ '',2023,'' @
     [dquote] @ ''This is a test abstract about security and economics'' @ [dquote] @ '','' @
     [dquote] @ ''10.1000/test1'' @ [dquote] @ '','' @
     [dquote] @ ''http://example.com'' @ [dquote] @ '','' @
     [dquote] @ ''article'' @ [dquote] @ '','' @
     [dquote] @ ''Test Journal'' @ [dquote]"

definition sampleCSVData_row2 :: string where
  "sampleCSVData_row2 =
     [dquote] @ ''Test Paper 2'' @ [dquote] @ '','' @
     [dquote] @ ''Alice Johnson'' @ [dquote] @ '',2022,'' @
     [dquote] @ ''Another abstract discussing game theory'' @ [dquote] @ '','' @
     [dquote] @ ''10.1000/test2'' @ [dquote] @ '','' @
     [dquote] @ ''http://example.com'' @ [dquote] @ '','' @
     [dquote] @ ''inproceedings'' @ [dquote] @ '','' @
     [dquote] @ ''Test Conference'' @ [dquote]"

definition sampleCSVData :: string where
  "sampleCSVData =
     sampleCSVData_header @ [newline] @ sampleCSVData_row1 @ [newline] @ sampleCSVData_row2"

text \<open>
  A data row that yields a record: it is not blank, it has at least as many fields as
  there are headers, and its resolved title is not empty (first parser), or has at least
  five characters (second parser).
\<close>

definition rowOk :: "string list \<Rightarrow> string \<Rightarrow> bool" where
  "rowOk headers r =
     (trim r \<noteq> [] \<and> length headers \<le> length (parseCSVLine (trim r))
      \<and> getField headers (parseCSVLine (trim r)) ''title'' \<noteq> [])"

definition rowOk_part004 :: "string list \<Rightarrow> string \<Rightarrow> bool" where
  "rowOk_part004 headers r =
     (trim r \<noteq> [] \<and> length headers \<le> length (parseCSVLine_part004 (trim r))
      \<and> 5 \<le> length (getField_part004 headers (parseCSVLine_part004 (trim r)) ''title''))"

text \<open>The headers and the fields of the two rows of the fixture.\<close>

definition sample_hdrs :: "string list" where
  "sample_hdrs = [''Title'', ''Author'', ''Publication Year'', ''Abstract'', ''DOI'', ''URL'', ''Item Type'', ''Venue'']"
definition sample_f1 :: "string list" where
  "sample_f1 = [''Test Paper 1'', ''John Doe; Jane Smith'', ''2023'',
     ''This is a test abstract about security and economics'', ''10.1000/test1'',
     ''http://example.com'', ''article'', ''Test Journal'']"
definition sample_f2 :: "string list" where
  "sample_f2 = [''Test Paper 2'', ''Alice Johnson'', ''2022'',
     ''Another abstract discussing game theory'', ''10.1000/test2'',
     ''http://example.com'', ''inproceedings'', ''Test Conference'']"

text \<open>The normalized title of a paper, and whether a paper has a title.\<close>

definition normTitle :: "PaperRecord \<Rightarrow> string" where
  "normTitle p = normalizeTitleForComparison (title p)"

definition hasTitle :: "PaperRecord \<Rightarrow> bool" where
  "hasTitle p = (trim (title p) \<noteq> [])"

text \<open>A paper with a key and a title, and nothing else.\<close>

definition mkPaper :: "string \<Rightarrow> string \<Rightarrow> PaperRecord" where
  "mkPaper k t = \<lparr> key = k, itemType = ''article'', publicationYear = None, authors = [],
     title = t, publicationTitle = [], doi = None, url = None, abstract = [], tags = [], venue = [] \<rparr>"

text \<open>
  A whole-word occurrence of a keyword in a text at position \<open>i\<close>: the keyword stands
  there, with no word character right before and none right after; and the number of
  such positions.
\<close>

definition wordAt :: "string \<Rightarrow> string \<Rightarrow> nat \<Rightarrow> bool" where
  "wordAt keyword text i =
     (i + length keyword \<le> length text
      \<and> take (length keyword) (drop i text) = keyword
      \<and> (i = 0 \<or> \<not> is_word (text ! (i - 1)))
      \<and> (i + length keyword = length text \<or> \<not> is_word (text ! (i + length keyword))))"

definition wholeWordOccurrences :: "string \<Rightarrow> string \<Rightarrow> nat" where
  "wholeWordOccurrences keyword text = length (filter (wordAt keyword text) [0..<length text])"

definition keywordOccurrences :: "string list \<Rightarrow> string \<Rightarrow> nat" where
  "keywordOccurrences keywords text =
     sum_list (map (\<lambda>keyword. wholeWordOccurrences keyword text) keywords)"

text \<open>
  The same with a flag for position 0 that says whether a word character stands before
  the text (the state of the scan).
\<close>

definition wordAtP :: "bool \<Rightarrow> string \<Rightarrow> string \<Rightarrow> nat \<Rightarrow> bool" where
  "wordAtP pw keyword text i =
     (i + length keyword \<le> length text
      \<and> take (length keyword) (drop i text) = keyword
      \<and> (if i = 0 then \<not> pw else \<not> is_word (text ! (i - 1)))
      \<and> (i + length keyword = length text \<or> \<not> is_word (text ! (i + length keyword))))"

text \<open>The keywords of the topic \<open>security\<close>, and two papers.\<close>

definition securityKeywords :: "string list" where
  "securityKeywords = [''security'', ''cybersecurity'', ''cyber'', ''attack'', ''defense'', ''threat'',
         ''vulnerability'', ''malware'', ''intrusion'', ''breach'', ''protection'', ''secure'',
         ''encryption'', ''authentication'', ''authorization'', ''firewall'', ''ids'', ''ips'',
         ''forensics'', ''incident'']"

definition longPaper :: PaperRecord where
  "longPaper = (mkPaper ''k'' ''Security of networks'')
      \<lparr> abstract := ''A study of attack and defense in security games, with an analysis of cyber risk for networks.'' \<rparr>"

text \<open>
  The three ways for two cleaned names to be one identity: a token is an initial of
  another when it is one character, the first of the other; two names match token by
  token when they have the same number of tokens and at every position the tokens are
  equal or one is an initial of the other; two names are in swapped order when each has
  two tokens, those of the other in the other order.
\<close>

definition initialOf :: "string \<Rightarrow> string \<Rightarrow> bool" where
  "initialOf a b = (length a = 1 \<and> b \<noteq> [] \<and> hd b = hd a)"

definition tokensMatch :: "string \<Rightarrow> string \<Rightarrow> bool" where
  "tokensMatch name1 name2 =
     list_all2 (\<lambda>a b. a = b \<or> initialOf a b \<or> initialOf b a)
       (split_char CHR '' '' name1) (split_char CHR '' '' name2)"

definition swappedOrder :: "string \<Rightarrow> string \<Rightarrow> bool" where
  "swappedOrder name1 name2 =
     (case (split_char CHR '' '' name1, split_char CHR '' '' name2) of
        ([a, b], [c, d]) \<Rightarrow> a = d \<and> b = c
      | _ \<Rightarrow> False)"







definition isPairGap :: "ResearchGap \<Rightarrow> bool" where
  "isPairGap g = (case supportingData (evidence g) of
                    IntersectionData e a s \<Rightarrow> True | TopicTrendData s e \<Rightarrow> False)"




section \<open>Evaluating the string primitives\<close>

text \<open>
  Case folding of a character literal without arithmetic: in the two ranges of capital
  letters bit 5 (value 32) is clear, and adding 32 sets it.
\<close>

lemma toLowerChar_Char:
  "toLowerChar (Char b0 b1 b2 b3 b4 b5 b6 b7) =
     (if \<not> b5 \<and> b6
         \<and> ((\<not> b7 \<and> (b0 \<or> b1 \<or> b2 \<or> b3 \<or> b4) \<and> \<not> (b4 \<and> b3 \<and> (b2 \<or> (b1 \<and> b0))))
            \<or> (b7 \<and> \<not> (b4 \<and> b3 \<and> b2 \<and> b1 \<and> b0) \<and> \<not> (b4 \<and> \<not> b3 \<and> b2 \<and> b1 \<and> b0)))
      then Char b0 b1 b2 b3 b4 True b6 b7 else Char b0 b1 b2 b3 b4 b5 b6 b7)"
  by (cases b0; cases b1; cases b2; cases b3; cases b4; cases b5; cases b6; cases b7;
      simp add: toLowerChar_def char_of_def bit_Suc_0_iff)

text \<open>The character classes of a character literal, as conditions on its eight bits.\<close>

lemma is_digit_Char:
  "is_digit (Char b0 b1 b2 b3 b4 b5 b6 b7) =
     (\<not> b7 \<and> \<not> b6 \<and> b5 \<and> b4 \<and> (\<not> b3 \<or> (\<not> b2 \<and> \<not> b1)))"
  by (cases b0; cases b1; cases b2; cases b3; cases b4; cases b5; cases b6; cases b7;
      simp add: is_digit_def)

lemma is_letter_Char:
  "is_letter (Char b0 b1 b2 b3 b4 b5 b6 b7) =
     (\<not> b7 \<and> b6 \<and> (b0 \<or> b1 \<or> b2 \<or> b3 \<or> b4) \<and> \<not> (b4 \<and> b3 \<and> (b2 \<or> (b1 \<and> b0))))"
  by (cases b0; cases b1; cases b2; cases b3; cases b4; cases b5; cases b6; cases b7;
      simp add: is_letter_def)

lemma is_word_Char:
  "is_word (Char b0 b1 b2 b3 b4 b5 b6 b7) =
     ((\<not> b7 \<and> \<not> b6 \<and> b5 \<and> b4 \<and> (\<not> b3 \<or> (\<not> b2 \<and> \<not> b1)))
      \<or> (\<not> b7 \<and> b6 \<and> (b0 \<or> b1 \<or> b2 \<or> b3 \<or> b4) \<and> \<not> (b4 \<and> b3 \<and> (b2 \<or> (b1 \<and> b0))))
      \<or> (b0 \<and> b1 \<and> b2 \<and> b3 \<and> b4 \<and> \<not> b5 \<and> b6 \<and> \<not> b7))"
  by (cases b0; cases b1; cases b2; cases b3; cases b4; cases b5; cases b6; cases b7;
      simp add: is_word_def is_digit_def)

lemma is_space_Char:
  "is_space (Char b0 b1 b2 b3 b4 b5 b6 b7) =
     ((\<not> b7 \<and> \<not> b6 \<and> \<not> b5 \<and> \<not> b4 \<and> b3 \<and> ((\<not> b2 \<and> (b1 \<or> b0)) \<or> (b2 \<and> \<not> b1)))
      \<or> (\<not> b6 \<and> b5 \<and> \<not> b4 \<and> \<not> b3 \<and> \<not> b2 \<and> \<not> b1 \<and> \<not> b0))"
  by (cases b0; cases b1; cases b2; cases b3; cases b4; cases b5; cases b6; cases b7;
      simp add: is_space_def)

lemmas char_eval = is_digit_Char is_word_Char is_space_Char is_letter_Char toLowerCase_def
  toLowerChar_Char trim_def startsWith_def dquote_def newline_def

section \<open>parseYear\<close>

lemma yearMatch_Some:
  "yearMatch pw s = Some m \<Longrightarrow>
     \<exists>i. m = take 4 (drop i s) \<and> yearAt (if i = 0 then pw else is_word (s ! (i - 1))) (drop i s)"
proof (induction s arbitrary: pw)
  case Nil
  then show ?case by simp
next
  case (Cons c cs)
  show ?case
  proof (cases "yearAt pw (c # cs)")
    case True
    with Cons.prems have "m = take 4 (drop 0 (c # cs))" by simp
    with True show ?thesis by (intro exI[of _ 0]) simp
  next
    case False
    with Cons.prems have "yearMatch (is_word c) cs = Some m" by simp
    from Cons.IH[OF this] obtain i where
      i: "m = take 4 (drop i cs)"
         "yearAt (if i = 0 then is_word c else is_word (cs ! (i - 1))) (drop i cs)"
      by blast
    show ?thesis
      by (rule exI[of _ "Suc i"]) (use i in \<open>cases i; simp\<close>)
  qed
qed

lemma is_digit_19_20:
  "is_digit CHR ''1''" "is_digit CHR ''9''" "is_digit CHR ''2''" "is_digit CHR ''0''"
  by (simp_all add: is_digit_def)

lemma yearAt_token:
  assumes "yearAt (if i = 0 then False else is_word (s ! (i - 1))) (drop i s)"
  shows "yearTokenAt s i (parseInt (take 4 (drop i s)))"
proof -
  from assms obtain a b c d rest where
    d: "drop i s = a # b # c # d # rest"
    by (auto simp: yearAt_def split: list.splits)
  have len: "i + 4 \<le> length s"
    using arg_cong[OF d, of length] by simp
  have nth4: "rest \<noteq> [] \<Longrightarrow> s ! (i + 4) = hd rest"
    using arg_cong[OF d, of "\<lambda>xs. xs ! 4"] len by (cases rest) (simp_all add: add.commute)
  have restlen: "rest = [] \<longleftrightarrow> i + 4 = length s"
    using arg_cong[OF d, of length] len by (cases rest) auto
  from assms d show ?thesis
    unfolding yearTokenAt_def yearAt_def
    using len nth4 restlen
    by (cases rest) (auto simp: is_digit_19_20 split: if_splits)
qed

text \<open>
  C5. \<open>parseYear\<close> is a total function into \<open>int option\<close> (it never throws). It returns a
  year only when the string holds a four-digit token with that value, and the value is
  within 1990 to 2025; a string with no four-digit token in that range gives \<open>None\<close>
  (JavaScript's \<open>null\<close>). In particular the year string \<open>1899\<close> gives \<open>None\<close>.
\<close>

theorem parseYear_only_valid_token:
  "(parseYear s = Some y \<longrightarrow> 1990 \<le> y \<and> y \<le> 2025 \<and> (\<exists>i. yearTokenAt s i y))
   \<and> ((\<forall>i y. yearTokenAt s i y \<longrightarrow> \<not> (1990 \<le> y \<and> y \<le> 2025)) \<longrightarrow> parseYear s = None)
   \<and> parseYear ''1899'' = None"
proof -
  have sound: "1990 \<le> y' \<and> y' \<le> 2025 \<and> (\<exists>i. yearTokenAt s i y')"
    if "parseYear s = Some y'" for y'
  proof -
    from that obtain m where m: "yearMatch False s = Some m" "y' = parseInt m"
      "1990 \<le> y'" "y' \<le> 2025"
      by (auto simp: parseYear_def Let_def split: if_splits option.splits)
    from yearMatch_Some[OF m(1)] obtain i where
      i: "m = take 4 (drop i s)"
         "yearAt (if i = 0 then False else is_word (s ! (i - 1))) (drop i s)"
      by blast
    from yearAt_token[OF i(2)] i(1) m(2) have "yearTokenAt s i y'" by simp
    with m show ?thesis by blast
  qed
  have none: "parseYear s = None"
    if "\<forall>i y. yearTokenAt s i y \<longrightarrow> \<not> (1990 \<le> y \<and> y \<le> 2025)"
  proof (cases "parseYear s")
    case None
    then show ?thesis .
  next
    case (Some y')
    from sound[OF this] that show ?thesis by blast
  qed
  have "parseYear ''1899'' = None"
    by (simp add: parseYear_def yearAt_def is_word_def is_digit_def)
  with sound none show ?thesis by blast
qed

theorem parseYear_only_valid_token_witness:
  "parseYear ''Published 2021-03-04'' = Some 2021
   \<and> (\<exists>i. yearTokenAt ''Published 2021-03-04'' i 2021)
   \<and> \<not> (\<exists>i y. yearTokenAt ''x1995'' i y \<and> 1990 \<le> y \<and> y \<le> 2025)
   \<and> parseYear ''x1995'' = None"
proof -
  have a: "parseYear ''Published 2021-03-04'' = Some 2021"
    by (simp add: parseYear_def yearAt_def is_word_def is_digit_def parseInt_def)
  have b: "\<forall>i y. yearTokenAt ''x1995'' i y \<longrightarrow> \<not> (1990 \<le> y \<and> y \<le> 2025)"
  proof (intro allI impI)
    fix i y
    assume t: "yearTokenAt ''x1995'' i y"
    then have "i + 4 \<le> 5" by (simp add: yearTokenAt_def)
    then have "i = 0 \<or> i = 1" by arith
    then show "\<not> (1990 \<le> y \<and> y \<le> 2025)"
    proof
      assume "i = 0"
      with t show ?thesis by (simp add: yearTokenAt_def is_digit_def)
    next
      assume "i = 1"
      with t show ?thesis by (simp add: yearTokenAt_def is_word_def is_digit_def)
    qed
  qed
  note t1 = parseYear_only_valid_token[of "''Published 2021-03-04''" 2021]
  note t2 = parseYear_only_valid_token[of "''x1995''" 0]
  have "1990 \<le> (2021::int) \<and> (2021::int) \<le> 2025
        \<and> (\<exists>i. yearTokenAt ''Published 2021-03-04'' i 2021)"
    by (rule mp[OF conjunct1[OF t1] a])
  then have c: "\<exists>i. yearTokenAt ''Published 2021-03-04'' i 2021"
    by (elim conjE)
  have d: "parseYear ''x1995'' = None"
    by (rule mp[OF conjunct1[OF conjunct2[OF t2]] b])
  have b': "\<not> (\<exists>i y. yearTokenAt ''x1995'' i y \<and> 1990 \<le> y \<and> y \<le> 2025)"
  proof
    assume "\<exists>i y. yearTokenAt ''x1995'' i y \<and> 1990 \<le> y \<and> y \<le> 2025"
    then obtain i y where t: "yearTokenAt ''x1995'' i y" and r: "1990 \<le> y \<and> y \<le> 2025"
      by (elim exE conjE) (rule that, assumption, rule conjI)
    from b[rule_format, OF t] r show False by (rule notE)
  qed
  show ?thesis
    by (intro conjI a c b' d)
qed

section \<open>calculateQualityMetrics on the empty list\<close>

text \<open>
  C9. On the empty list \<open>calculateQualityMetrics\<close> returns (it is a total function)
  \<open>totalPapers = 0\<close>, and every coverage field is the value of the division \<open>0/0\<close>, which
  is \<open>NaN\<close>, not 0 and not 100: no division by \<open>totalPapers\<close> is guarded. The function is
  the same text in src/data/csvParser.ts and in src/unnamed/part_004.
\<close>

theorem calculateQualityMetrics_empty:
  "calculateQualityMetrics currentYear [] =
     \<lparr> totalPapers = 0, doiCoverage = NaN, urlCoverage = NaN,
       abstractCoverage = NaN, recentPapers = NaN \<rparr>"
  by (simp add: calculateQualityMetrics_def js_div_def)

theorem calculateQualityMetrics_empty_witness:
  "totalPapers (calculateQualityMetrics 2024 []) = 0
   \<and> doiCoverage (calculateQualityMetrics 2024 []) \<noteq> Fin 0
   \<and> doiCoverage (calculateQualityMetrics 2024 []) \<noteq> Fin 100
   \<and> recentPapers (calculateQualityMetrics 2024 []) = NaN"
  using calculateQualityMetrics_empty[of 2024] by simp

section \<open>Quoted fields in the two line parsers\<close>

lemma csvEscape_simps:
  "csvEscape [] = []"
  "csvEscape (c # s) = (if c = dquote then dquote # dquote # csvEscape s else c # csvEscape s)"
  by (simp_all add: csvEscape_def)

lemma join_Cons_Cons: "ys \<noteq> [] \<Longrightarrow> join sep (x # ys) = x @ sep @ join sep ys"
  by (cases ys) simp_all

text \<open>The first parser: inside quotes every double quote only flips the state.\<close>

lemma parseCSVLine_loop_escaped:
  "parseCSVLine_loop (csvEscape s @ r) flds cur True =
     parseCSVLine_loop r flds (cur @ filter (\<lambda>c. c \<noteq> dquote) s) True"
  by (induction s arbitrary: cur) (simp_all add: csvEscape_simps)

lemma parseCSVLine_loop_quoted:
  "parseCSVLine_loop (csvQuote s @ r) flds cur False =
     parseCSVLine_loop r flds (cur @ filter (\<lambda>c. c \<noteq> dquote) s) False"
  by (simp add: csvQuote_def parseCSVLine_loop_escaped)

lemma encodeLine_Cons:
  "fs \<noteq> [] \<Longrightarrow> encodeLine (f # fs) = encodeField f @ CHR '','' # encodeLine fs"
  by (simp add: encodeLine_def join_Cons_Cons)

lemma encodeLine_single: "encodeLine [f] = encodeField f"
  by (simp add: encodeLine_def)

lemma parseCSVLine_loop_bare:
  "dquote \<notin> set s \<Longrightarrow> CHR '','' \<notin> set s \<Longrightarrow>
   parseCSVLine_loop (s @ r) flds cur inq = parseCSVLine_loop r flds (cur @ s) inq"
  by (induction s arbitrary: cur) auto

lemma parseCSVLine_loop_field:
  "wellFormedField f \<Longrightarrow>
   parseCSVLine_loop (encodeField f @ r) flds cur False =
     parseCSVLine_loop r flds (cur @ filter (\<lambda>c. c \<noteq> dquote) (fieldValue f)) False"
proof (cases f)
  case (Quoted s)
  then show ?thesis by (simp add: parseCSVLine_loop_quoted)
next
  case (Bare s)
  assume "wellFormedField f"
  with Bare have a: "dquote \<notin> set s" "CHR '','' \<notin> set s" by simp_all
  then have "filter (\<lambda>c. c \<noteq> dquote) s = s" by (auto simp: filter_id_conv)
  with Bare a show ?thesis by (simp add: parseCSVLine_loop_bare)
qed

lemma parseCSVLine_loop_line:
  "fs \<noteq> [] \<Longrightarrow> list_all wellFormedField fs \<Longrightarrow>
   parseCSVLine_loop (encodeLine fs) flds [] False =
     flds @ map (\<lambda>f. trim (filter (\<lambda>c. c \<noteq> dquote) (fieldValue f))) fs"
proof (induction fs arbitrary: flds)
  case Nil
  then show ?case by simp
next
  case (Cons f fs)
  from Cons.prems have wf: "wellFormedField f" by simp
  show ?case
  proof (cases "fs = []")
    case True
    have "parseCSVLine_loop (encodeField f @ []) flds [] False =
          parseCSVLine_loop [] flds ([] @ filter (\<lambda>c. c \<noteq> dquote) (fieldValue f)) False"
      by (rule parseCSVLine_loop_field[OF wf])
    with True show ?thesis by (simp add: encodeLine_single)
  next
    case False
    have "parseCSVLine_loop (encodeField f @ CHR '','' # encodeLine fs) flds [] False =
          parseCSVLine_loop (CHR '','' # encodeLine fs) flds
            ([] @ filter (\<lambda>c. c \<noteq> dquote) (fieldValue f)) False"
      by (rule parseCSVLine_loop_field[OF wf])
    also have "\<dots> = parseCSVLine_loop (encodeLine fs)
        (flds @ [trim (filter (\<lambda>c. c \<noteq> dquote) (fieldValue f))]) [] False"
      by (simp add: dquote_def)
    also have "\<dots> = (flds @ [trim (filter (\<lambda>c. c \<noteq> dquote) (fieldValue f))])
        @ map (\<lambda>f. trim (filter (\<lambda>c. c \<noteq> dquote) (fieldValue f))) fs"
      using Cons.prems False by (intro Cons.IH) simp_all
    finally show ?thesis by (simp add: encodeLine_Cons[OF False])
  qed
qed

text \<open>
  The second parser: a double quote followed by another one is a literal double quote,
  whatever the state; a double quote followed by anything else flips the state.
\<close>

lemma part004_loop_nonquote:
  "c \<noteq> dquote \<Longrightarrow>
   parseCSVLine_part004_loop (c # cs) flds cur inq =
     (if c = CHR '','' \<and> \<not> inq then parseCSVLine_part004_loop cs (flds @ [trim cur]) [] inq
      else parseCSVLine_part004_loop cs flds (cur @ [c]) inq)"
  by (cases cs) auto

lemma part004_loop_single_quote:
  "cs = [] \<or> hd cs \<noteq> dquote \<Longrightarrow>
   parseCSVLine_part004_loop (dquote # cs) flds cur inq =
     parseCSVLine_part004_loop cs flds cur (\<not> inq)"
  by (cases cs) auto

lemma part004_loop_escaped:
  "r = [] \<or> hd r \<noteq> dquote \<Longrightarrow>
   parseCSVLine_part004_loop (csvEscape t @ dquote # r) flds cur True =
     parseCSVLine_part004_loop r flds (cur @ t) False"
proof (induction t arbitrary: cur)
  case Nil
  then show ?case by (simp add: csvEscape_simps part004_loop_single_quote)
next
  case (Cons c t)
  show ?case
  proof (cases "c = dquote")
    case True
    with Cons show ?thesis by (simp add: csvEscape_simps)
  next
    case False
    with Cons show ?thesis by (simp add: csvEscape_simps part004_loop_nonquote)
  qed
qed

lemma part004_loop_quoted:
  "\<exists>c\<in>set s. c \<noteq> dquote \<Longrightarrow> r = [] \<or> hd r \<noteq> dquote \<Longrightarrow>
   parseCSVLine_part004_loop (csvQuote s @ r) flds cur False =
     parseCSVLine_part004_loop r flds (cur @ s) False"
proof (induction s arbitrary: cur)
  case Nil
  then show ?case by simp
next
  case (Cons c s)
  show ?case
  proof (cases "c = dquote")
    case True
    with Cons.prems have ex: "\<exists>c\<in>set s. c \<noteq> dquote" by auto
    from Cons.IH[OF ex Cons.prems(2), of "cur @ [dquote]"] True
    show ?thesis by (simp add: csvQuote_def csvEscape_simps)
  next
    case False
    have "parseCSVLine_part004_loop (dquote # (csvEscape (c # s) @ dquote # r)) flds cur False =
          parseCSVLine_part004_loop (csvEscape (c # s) @ dquote # r) flds cur True"
      using False by (subst part004_loop_single_quote) (simp_all add: csvEscape_simps)
    also have "\<dots> = parseCSVLine_part004_loop r flds (cur @ c # s) False"
      by (rule part004_loop_escaped[OF Cons.prems(2)])
    finally show ?thesis by (simp add: csvQuote_def)
  qed
qed

lemma part004_loop_pairs:
  "parseCSVLine_part004_loop (replicate (2 * n) dquote @ r) flds cur inq =
     parseCSVLine_part004_loop r flds (cur @ replicate n dquote) inq"
proof (induction n arbitrary: cur)
  case 0
  then show ?case by simp
next
  case (Suc n)
  have e: "replicate (2 * Suc n) dquote @ r = dquote # dquote # (replicate (2 * n) dquote @ r)"
    by simp
  have "parseCSVLine_part004_loop (dquote # dquote # (replicate (2 * n) dquote @ r)) flds cur inq =
        parseCSVLine_part004_loop (replicate (2 * n) dquote @ r) flds (cur @ [dquote]) inq"
    by simp
  also have "\<dots> = parseCSVLine_part004_loop r flds ((cur @ [dquote]) @ replicate n dquote) inq"
    by (rule Suc.IH)
  finally show ?case
    unfolding e by simp
qed

lemma csvEscape_replicate: "csvEscape (replicate n dquote) = replicate (2 * n) dquote"
  by (induction n) (simp_all add: csvEscape_simps)

lemma part004_loop_only_quotes:
  assumes "list_all (\<lambda>c. c = dquote) s"
  shows "parseCSVLine_part004_loop (csvQuote s @ r) flds cur inq =
         parseCSVLine_part004_loop r flds (cur @ s @ [dquote]) inq"
proof -
  from assms have s: "s = replicate (length s) dquote"
    by (induction s) simp_all
  have "csvQuote (replicate (length s) dquote) = replicate (2 * Suc (length s)) dquote"
    by (simp add: csvQuote_def csvEscape_replicate replicate_append_same)
  with s have q: "csvQuote s = replicate (2 * Suc (length s)) dquote" by simp
  have "replicate (Suc (length s)) dquote = s @ [dquote]"
    using s by (metis replicate_append_same replicate_Suc)
  then show ?thesis
    unfolding q part004_loop_pairs by simp
qed

lemma part004_loop_bare:
  "dquote \<notin> set s \<Longrightarrow> CHR '','' \<notin> set s \<Longrightarrow>
   parseCSVLine_part004_loop (s @ r) flds cur inq =
     parseCSVLine_part004_loop r flds (cur @ s) inq"
  by (induction s arbitrary: cur) (auto simp: part004_loop_nonquote)

lemma part004_loop_field:
  assumes wf: "wellFormedField f" and r: "r = [] \<or> hd r \<noteq> dquote"
  shows "parseCSVLine_part004_loop (encodeField f @ r) flds cur False =
         parseCSVLine_part004_loop r flds (cur @ part004Collects f) False"
proof (cases f)
  case (Bare s)
  with wf show ?thesis by (simp add: part004Collects_def part004_loop_bare)
next
  case (Quoted s)
  show ?thesis
  proof (cases "list_all (\<lambda>c. c = dquote) s")
    case True
    with Quoted show ?thesis
      by (simp add: part004Collects_def part004_loop_only_quotes)
  next
    case False
    then have ex: "\<exists>c\<in>set s. c \<noteq> dquote" by (simp add: list_all_iff)
    from part004_loop_quoted[OF ex r] Quoted False show ?thesis
      by (simp add: part004Collects_def)
  qed
qed

lemma part004_loop_line:
  "fs \<noteq> [] \<Longrightarrow> list_all wellFormedField fs \<Longrightarrow>
   parseCSVLine_part004_loop (encodeLine fs) flds [] False =
     flds @ map (\<lambda>f. trim (part004Collects f)) fs"
proof (induction fs arbitrary: flds)
  case Nil
  then show ?case by simp
next
  case (Cons f fs)
  from Cons.prems have wf: "wellFormedField f" by simp
  show ?case
  proof (cases "fs = []")
    case True
    have "parseCSVLine_part004_loop (encodeField f @ []) flds [] False =
          parseCSVLine_part004_loop [] flds ([] @ part004Collects f) False"
      by (rule part004_loop_field[OF wf]) simp
    with True show ?thesis by (simp add: encodeLine_single)
  next
    case False
    have "parseCSVLine_part004_loop (encodeField f @ CHR '','' # encodeLine fs) flds [] False =
          parseCSVLine_part004_loop (CHR '','' # encodeLine fs) flds
            ([] @ part004Collects f) False"
      by (rule part004_loop_field[OF wf]) (simp add: dquote_def)
    also have "\<dots> = parseCSVLine_part004_loop (encodeLine fs)
        (flds @ [trim (part004Collects f)]) [] False"
      by (simp add: part004_loop_nonquote dquote_def)
    also have "\<dots> = (flds @ [trim (part004Collects f)]) @ map (\<lambda>f. trim (part004Collects f)) fs"
      using Cons.prems False by (intro Cons.IH) simp_all
    finally show ?thesis by (simp add: encodeLine_Cons[OF False])
  qed
qed

lemma parseCSVLine_part004_line:
  "fs \<noteq> [] \<Longrightarrow> list_all wellFormedField fs \<Longrightarrow>
   parseCSVLine_part004 (encodeLine fs) = map (\<lambda>f. trim (part004Collects f)) fs"
  using part004_loop_line[of fs "[]"] by (simp add: parseCSVLine_part004_def)

text \<open>
  C3, as the code has it. For every CSV line (fields joined by commas, each bare or
  double-quoted) both parsers return one field per field of the line, so a comma inside
  a double-quoted field stays part of its value. The parser of src/data/csvParser.ts
  returns each value without its double quotes: it has no escape handling. The parser of
  src/unnamed/part_004 returns the value, each doubled double quote read as one double
  quote, for every field whose value is not made of double quotes only. Both trim the
  value.
\<close>

theorem csv_line_commas_and_doubled_quotes:
  "fs \<noteq> [] \<and> list_all wellFormedField fs \<longrightarrow>
     parseCSVLine (encodeLine fs) =
       map (\<lambda>f. trim (filter (\<lambda>c. c \<noteq> dquote) (fieldValue f))) fs
     \<and> length (parseCSVLine_part004 (encodeLine fs)) = length fs
     \<and> (\<forall>i<length fs. \<not> onlyQuotes (fs ! i) \<longrightarrow>
           parseCSVLine_part004 (encodeLine fs) ! i = trim (fieldValue (fs ! i)))"
proof (intro impI, elim conjE)
  assume ne: "fs \<noteq> []" and wf: "list_all wellFormedField fs"
  have a: "parseCSVLine (encodeLine fs) =
       map (\<lambda>f. trim (filter (\<lambda>c. c \<noteq> dquote) (fieldValue f))) fs"
    using parseCSVLine_loop_line[OF ne wf, of "[]"] by (simp add: parseCSVLine_def)
  note b = parseCSVLine_part004_line[OF ne wf]
  have c: "\<forall>i<length fs. \<not> onlyQuotes (fs ! i) \<longrightarrow>
           parseCSVLine_part004 (encodeLine fs) ! i = trim (fieldValue (fs ! i))"
    unfolding b by (simp add: part004Collects_def)
  from a b c show "parseCSVLine (encodeLine fs) =
       map (\<lambda>f. trim (filter (\<lambda>c. c \<noteq> dquote) (fieldValue f))) fs
     \<and> length (parseCSVLine_part004 (encodeLine fs)) = length fs
     \<and> (\<forall>i<length fs. \<not> onlyQuotes (fs ! i) \<longrightarrow>
           parseCSVLine_part004 (encodeLine fs) ! i = trim (fieldValue (fs ! i)))"
    by simp
qed

theorem csv_line_commas_and_doubled_quotes_witness:
  "encodeLine [Quoted ''Doe, John'', Bare ''2023'', Quoted [], Quoted [CHR ''a'', dquote, CHR ''b'']]
     = [dquote] @ ''Doe, John'' @ [dquote] @ '',2023,'' @ [dquote, dquote] @ '',''
        @ [dquote, CHR ''a'', dquote, dquote, CHR ''b'', dquote]
   \<and> parseCSVLine
       (encodeLine [Quoted ''Doe, John'', Bare ''2023'', Quoted [], Quoted [CHR ''a'', dquote, CHR ''b'']])
     = [''Doe, John'', ''2023'', [], ''ab'']
   \<and> length (parseCSVLine_part004
       (encodeLine [Quoted ''Doe, John'', Bare ''2023'', Quoted [], Quoted [CHR ''a'', dquote, CHR ''b'']]))
     = 4
   \<and> parseCSVLine_part004
       (encodeLine [Quoted ''Doe, John'', Bare ''2023'', Quoted [], Quoted [CHR ''a'', dquote, CHR ''b'']])
       ! 0 = ''Doe, John''
   \<and> parseCSVLine_part004
       (encodeLine [Quoted ''Doe, John'', Bare ''2023'', Quoted [], Quoted [CHR ''a'', dquote, CHR ''b'']])
       ! 3 = [CHR ''a'', dquote, CHR ''b'']"
proof -
  let ?fs = "[Quoted ''Doe, John'', Bare ''2023'', Quoted [], Quoted [CHR ''a'', dquote, CHR ''b'']]"
  have e: "encodeLine ?fs = [dquote] @ ''Doe, John'' @ [dquote] @ '',2023,'' @ [dquote, dquote] @ '',''
        @ [dquote, CHR ''a'', dquote, dquote, CHR ''b'', dquote]"
    by (simp add: encodeLine_def csvQuote_def csvEscape_def dquote_def)
  have h: "?fs \<noteq> [] \<and> list_all wellFormedField ?fs"
    by (simp add: dquote_def)
  note T = mp[OF csv_line_commas_and_doubled_quotes[of ?fs] h]
  have a: "parseCSVLine (encodeLine ?fs) = [''Doe, John'', ''2023'', [], ''ab'']"
    using conjunct1[OF T] by (simp add: trim_def is_space_Char dquote_def)
  have b: "length (parseCSVLine_part004 (encodeLine ?fs)) = 4"
    using conjunct1[OF conjunct2[OF T]] by simp
  note c = conjunct2[OF conjunct2[OF T], rule_format]
  have c0: "parseCSVLine_part004 (encodeLine ?fs) ! 0 = ''Doe, John''"
    using c[of 0] by (simp add: trim_def is_space_Char dquote_def)
  have c3: "parseCSVLine_part004 (encodeLine ?fs) ! 3 = [CHR ''a'', dquote, CHR ''b'']"
    using c[of 3] by (simp add: trim_def is_space_Char dquote_def)
  show ?thesis
    by (intro conjI e a b c0 c3)
qed


text \<open>
  A double-quoted field whose value is empty is read by the second parser as one double
  quote (the two quotes are taken for an escaped quote); the fields after it are not
  affected.
\<close>

lemma part004_empty_quoted_field:
  "parseCSVLine_part004 (encodeLine [Quoted [], Quoted ''a,b'']) = [[dquote], ''a,b'']"
  by (simp add: parseCSVLine_part004_line part004Collects_def trim_def is_space_Char dquote_def)

text \<open>
  The claim as stated fails on the first parser: the quoted field of the value \<open>a"b\<close>
  (the line \<open>"a""b"\<close>) is read as \<open>ab\<close>.
\<close>

theorem doubled_quote_counterexample:
  "csvQuote [CHR ''a'', dquote, CHR ''b''] = [dquote, CHR ''a'', dquote, dquote, CHR ''b'', dquote]
   \<and> parseCSVLine [dquote, CHR ''a'', dquote, dquote, CHR ''b'', dquote] = [''ab'']"
  by (simp add: parseCSVLine_def csvQuote_def csvEscape_def char_eval)

section \<open>One record per row\<close>


lemma split_where_no_sep:
  "\<forall>x\<in>set a. \<not> sep x \<Longrightarrow> split_where sep cur a = [cur @ a]"
  by (induction a arbitrary: cur) simp_all

lemma split_where_sep:
  "\<forall>x\<in>set a. \<not> sep x \<Longrightarrow> sep c \<Longrightarrow>
   split_where sep cur (a @ c # b) = (cur @ a) # split_where sep [] b"
  by (induction a arbitrary: cur) simp_all

lemma split_char_no_sep: "sep \<notin> set a \<Longrightarrow> split_char sep a = [a]"
  using split_where_no_sep[of a "\<lambda>c. c = sep" "[]"] by (auto simp: split_char_def)

lemma split_char_join:
  "\<forall>l\<in>set (l0 # ls). sep \<notin> set l \<Longrightarrow> split_char sep (join [sep] (l0 # ls)) = l0 # ls"
proof (induction ls arbitrary: l0)
  case Nil
  then show ?case by (simp add: split_char_no_sep)
next
  case (Cons l ls)
  have "join [sep] (l0 # l # ls) = l0 @ sep # join [sep] (l # ls)" by simp
  moreover have "split_where (\<lambda>c. c = sep) [] (l0 @ sep # join [sep] (l # ls))
      = ([] @ l0) # split_where (\<lambda>c. c = sep) [] (join [sep] (l # ls))"
    using Cons.prems by (intro split_where_sep) auto
  moreover have "split_char sep (join [sep] (l # ls)) = l # ls"
    using Cons.prems by (intro Cons.IH) simp
  ultimately show ?case by (simp add: split_char_def)
qed

lemma createPaperRecord_title:
  "getField headers flds ''title'' \<noteq> [] \<Longrightarrow>
   \<exists>p. createPaperRecord headers flds = Some p
       \<and> title p = getField headers flds ''title''
       \<and> authors p = parseAuthors (js_or (getField headers flds ''author'')
                                          (getField headers flds ''authors''))"
  by (simp add: createPaperRecord_def Let_def)

lemma createPaperRecord_part004_title:
  "5 \<le> length (getField_part004 headers flds ''title'') \<Longrightarrow>
   \<exists>p. createPaperRecord_part004 headers flds = Some p
       \<and> title p = getField_part004 headers flds ''title''
       \<and> authors p =
           (let a = parseAuthors (js_or (getField_part004 headers flds ''author'')
                                        (getField_part004 headers flds ''authors''))
            in if length a > 0 then a else [''Unknown Author''])"
  by (auto simp add: createPaperRecord_part004_def Let_def)

lemma parseCSV_rows_all:
  "\<forall>r\<in>set rows. rowOk headers r \<Longrightarrow>
   parseCSV_rows headers rows acc =
     acc @ map (\<lambda>r. the (createPaperRecord headers (parseCSVLine (trim r)))) rows"
proof (induction rows arbitrary: acc)
  case Nil
  then show ?case by simp
next
  case (Cons r rows)
  from Cons.prems have ok: "rowOk headers r" by simp
  then obtain p where p: "createPaperRecord headers (parseCSVLine (trim r)) = Some p"
    using createPaperRecord_title[of headers "parseCSVLine (trim r)"] by (auto simp: rowOk_def)
  have "parseCSV_rows headers (r # rows) acc = parseCSV_rows headers rows (acc @ [p])"
    using ok p by (simp add: rowOk_def Let_def)
  also have "\<dots> = (acc @ [p]) @ map (\<lambda>r. the (createPaperRecord headers (parseCSVLine (trim r)))) rows"
    using Cons.prems by (intro Cons.IH) simp
  finally show ?case using p by simp
qed

lemma parseCSV_part004_rows_all:
  "\<forall>r\<in>set rows. rowOk_part004 headers r \<Longrightarrow>
   parseCSV_part004_rows headers rows acc =
     acc @ map (\<lambda>r. the (createPaperRecord_part004 headers (parseCSVLine_part004 (trim r)))) rows"
proof (induction rows arbitrary: acc)
  case Nil
  then show ?case by simp
next
  case (Cons r rows)
  from Cons.prems have ok: "rowOk_part004 headers r" by simp
  then obtain p where p: "createPaperRecord_part004 headers (parseCSVLine_part004 (trim r)) = Some p"
    using createPaperRecord_part004_title[of headers "parseCSVLine_part004 (trim r)"]
    by (auto simp: rowOk_part004_def)
  have "parseCSV_part004_rows headers (r # rows) acc = parseCSV_part004_rows headers rows (acc @ [p])"
    using ok p by (simp add: rowOk_part004_def Let_def)
  also have "\<dots> = (acc @ [p]) @ map (\<lambda>r. the (createPaperRecord_part004 headers (parseCSVLine_part004 (trim r)))) rows"
    using Cons.prems by (intro Cons.IH) simp
  finally show ?case using p by simp
qed

lemma parseCSV_all:
  assumes "\<forall>l\<in>set (hdr # rows). newline \<notin> set l"
      and "\<forall>r\<in>set rows. rowOk (csvHeaders hdr) r"
  shows "parseCSV (join [newline] (hdr # rows)) =
           map (\<lambda>r. the (createPaperRecord (csvHeaders hdr) (parseCSVLine (trim r)))) rows"
  using assms by (simp add: parseCSV_def split_char_join parseCSV_rows_all del: join.simps)

lemma parseCSV_part004_all:
  assumes "\<forall>l\<in>set (hdr # rows). newline \<notin> set l"
      and "\<forall>r\<in>set rows. rowOk_part004 (csvHeaders_part004 hdr) r"
  shows "parseCSV_part004 (join [newline] (hdr # rows)) =
           map (\<lambda>r. the (createPaperRecord_part004 (csvHeaders_part004 hdr) (parseCSVLine_part004 (trim r)))) rows"
proof (cases rows)
  case Nil
  then show ?thesis using assms by (simp add: parseCSV_part004_def split_char_no_sep Let_def)
next
  case (Cons r rs)
  have l: "split_char newline (join [newline] (hdr # rows)) = hdr # rows"
    by (rule split_char_join[OF assms(1)])
  have rws: "parseCSV_part004_rows (csvHeaders_part004 hdr) rows [] =
      map (\<lambda>r. the (createPaperRecord_part004 (csvHeaders_part004 hdr)
                        (parseCSVLine_part004 (trim r)))) rows"
    by (simp add: parseCSV_part004_rows_all[OF assms(2)])
  from Cons have len: "\<not> length (hdr # rows) < 2" by simp
  show ?thesis
    unfolding parseCSV_part004_def l Let_def
    using len by (simp add: rws)
qed

lemmas sample_defs = sampleCSVData_header_def sampleCSVData_row1_def sampleCSVData_row2_def

lemma sample_no_newline:
  "\<forall>l\<in>set (sampleCSVData_header # [sampleCSVData_row1, sampleCSVData_row2]). newline \<notin> set l"
  by (simp add: sample_defs dquote_def newline_def)

lemma sample_join:
  "sampleCSVData = join [newline] (sampleCSVData_header # [sampleCSVData_row1, sampleCSVData_row2])"
  by (simp add: sampleCSVData_def)

lemma sample_trim:
  "trim sampleCSVData_row1 = sampleCSVData_row1" "trim sampleCSVData_row2 = sampleCSVData_row2"
  by (simp_all add: sample_defs trim_def is_space_def dquote_def)

lemma sample_headers: "csvHeaders sampleCSVData_header = sample_hdrs"
  by (simp add: csvHeaders_def split_char_def sampleCSVData_header_def sample_hdrs_def char_eval)

lemma sample_headers_part004: "csvHeaders_part004 sampleCSVData_header = sample_hdrs"
  by (simp add: csvHeaders_part004_def parseCSVLine_part004_def sampleCSVData_header_def sample_hdrs_def char_eval)

lemma sample_fields:
  "parseCSVLine sampleCSVData_row1 = sample_f1" "parseCSVLine sampleCSVData_row2 = sample_f2"
  by (simp_all add: parseCSVLine_def sample_defs sample_f1_def sample_f2_def char_eval)

lemma sample_fields_part004:
  "parseCSVLine_part004 sampleCSVData_row1 = sample_f1"
  "parseCSVLine_part004 sampleCSVData_row2 = sample_f2"
  by (simp_all add: parseCSVLine_part004_def sample_defs sample_f1_def sample_f2_def char_eval)

lemmas getField_eval = getField_def getField_part004_def possibleFields_def fieldMappings_def
  headerMatches_def headerMatches_part004_def cleanField_def

lemma sample_titles:
  "getField sample_hdrs sample_f1 ''title'' = ''Test Paper 1''"
  "getField sample_hdrs sample_f2 ''title'' = ''Test Paper 2''"
  "getField_part004 sample_hdrs sample_f1 ''title'' = ''Test Paper 1''"
  "getField_part004 sample_hdrs sample_f2 ''title'' = ''Test Paper 2''"
  by (simp_all add: getField_eval sample_hdrs_def sample_f1_def sample_f2_def char_eval)

lemma sample_author:
  "getField sample_hdrs sample_f1 ''author'' = ''John Doe; Jane Smith''"
  "getField_part004 sample_hdrs sample_f1 ''author'' = ''John Doe; Jane Smith''"
  by (simp_all add: getField_eval sample_hdrs_def sample_f1_def char_eval)

lemma sample_parseAuthors:
  "parseAuthors ''John Doe; Jane Smith'' = [''John Doe'', ''Jane Smith'']"
  by (simp add: parseAuthors_def csv_cleanAuthorName_def stripTitle_def suffixAt_def char_eval)

lemma sample_rowOk:
  "\<forall>r\<in>set [sampleCSVData_row1, sampleCSVData_row2]. rowOk (csvHeaders sampleCSVData_header) r"
  by (simp add: rowOk_def sample_trim sample_headers sample_fields sample_titles)
     (simp add: sample_hdrs_def sample_f1_def sample_f2_def sample_defs)

lemma sample_rowOk_part004:
  "\<forall>r\<in>set [sampleCSVData_row1, sampleCSVData_row2].
     rowOk_part004 (csvHeaders_part004 sampleCSVData_header) r"
  by (simp add: rowOk_part004_def sample_trim sample_headers_part004 sample_fields_part004 sample_titles)
     (simp add: sample_hdrs_def sample_f1_def sample_f2_def sample_defs)

lemma sample_parse:
  "parseCSV sampleCSVData =
     [the (createPaperRecord sample_hdrs sample_f1), the (createPaperRecord sample_hdrs sample_f2)]"
  by (simp only: sample_join parseCSV_all[OF sample_no_newline sample_rowOk])
     (simp add: sample_trim sample_headers sample_fields)

lemma sample_parse_part004:
  "parseCSV_part004 sampleCSVData =
     [the (createPaperRecord_part004 sample_hdrs sample_f1),
      the (createPaperRecord_part004 sample_hdrs sample_f2)]"
  by (simp only: sample_join parseCSV_part004_all[OF sample_no_newline sample_rowOk_part004])
     (simp add: sample_trim sample_headers_part004 sample_fields_part004)

lemma sample_first:
  "title (the (createPaperRecord sample_hdrs sample_f1)) = ''Test Paper 1''
   \<and> authors (the (createPaperRecord sample_hdrs sample_f1)) = [''John Doe'', ''Jane Smith'']"
  using createPaperRecord_title[of sample_hdrs sample_f1]
  by (auto simp add: sample_titles sample_author js_or_def sample_parseAuthors)

lemma sample_first_part004:
  "title (the (createPaperRecord_part004 sample_hdrs sample_f1)) = ''Test Paper 1''
   \<and> authors (the (createPaperRecord_part004 sample_hdrs sample_f1)) = [''John Doe'', ''Jane Smith'']"
  using createPaperRecord_part004_title[of sample_hdrs sample_f1]
  by (auto simp add: sample_titles sample_author js_or_def sample_parseAuthors)

text \<open>
  C1, as the code has it. For a CSV text made of a header line and data rows (no line
  holds a line feed) in which every row is not blank, has at least as many fields as the
  header and has a resolved title that is not empty, \<open>parseCSV\<close> of
  src/data/csvParser.ts returns one record per row, in order, with that title. The
  enhanced \<open>parseCSV\<close> of src/unnamed/part_004 does so when every resolved title has at
  least five characters. On the fixture \<open>sampleCSVData\<close> both return two records, the
  first with the title \<open>Test Paper 1\<close> and two authors.
\<close>

theorem parseCSV_one_record_per_row:
  "((\<forall>l\<in>set (hdr # rows). newline \<notin> set l) \<and> (\<forall>r\<in>set rows. rowOk (csvHeaders hdr) r) \<longrightarrow>
      length (parseCSV (join [newline] (hdr # rows))) = length rows
      \<and> map title (parseCSV (join [newline] (hdr # rows))) =
          map (\<lambda>r. getField (csvHeaders hdr) (parseCSVLine (trim r)) ''title'') rows)
   \<and> ((\<forall>l\<in>set (hdr # rows). newline \<notin> set l)
        \<and> (\<forall>r\<in>set rows. rowOk_part004 (csvHeaders_part004 hdr) r) \<longrightarrow>
      length (parseCSV_part004 (join [newline] (hdr # rows))) = length rows
      \<and> map title (parseCSV_part004 (join [newline] (hdr # rows))) =
          map (\<lambda>r. getField_part004 (csvHeaders_part004 hdr) (parseCSVLine_part004 (trim r)) ''title'')
            rows)
   \<and> length (parseCSV sampleCSVData) = 2
   \<and> title (parseCSV sampleCSVData ! 0) = ''Test Paper 1''
   \<and> length (authors (parseCSV sampleCSVData ! 0)) = 2
   \<and> length (parseCSV_part004 sampleCSVData) = 2
   \<and> title (parseCSV_part004 sampleCSVData ! 0) = ''Test Paper 1''
   \<and> length (authors (parseCSV_part004 sampleCSVData ! 0)) = 2"
proof -
  have A: "length (parseCSV (join [newline] (hdr # rows))) = length rows
      \<and> map title (parseCSV (join [newline] (hdr # rows))) =
          map (\<lambda>r. getField (csvHeaders hdr) (parseCSVLine (trim r)) ''title'') rows"
    if nl: "\<forall>l\<in>set (hdr # rows). newline \<notin> set l"
      and ok: "\<forall>r\<in>set rows. rowOk (csvHeaders hdr) r"
  proof -
    have t: "title (the (createPaperRecord (csvHeaders hdr) (parseCSVLine (trim r)))) =
             getField (csvHeaders hdr) (parseCSVLine (trim r)) ''title''" if "r \<in> set rows" for r
      using createPaperRecord_title[of "csvHeaders hdr" "parseCSVLine (trim r)"] ok that
      by (auto simp: rowOk_def)
    show ?thesis
      unfolding parseCSV_all[OF nl ok] using t by simp
  qed
  have B: "length (parseCSV_part004 (join [newline] (hdr # rows))) = length rows
      \<and> map title (parseCSV_part004 (join [newline] (hdr # rows))) =
          map (\<lambda>r. getField_part004 (csvHeaders_part004 hdr) (parseCSVLine_part004 (trim r)) ''title'')
            rows"
    if nl: "\<forall>l\<in>set (hdr # rows). newline \<notin> set l"
      and ok: "\<forall>r\<in>set rows. rowOk_part004 (csvHeaders_part004 hdr) r"
  proof -
    have t: "title (the (createPaperRecord_part004 (csvHeaders_part004 hdr) (parseCSVLine_part004 (trim r)))) =
             getField_part004 (csvHeaders_part004 hdr) (parseCSVLine_part004 (trim r)) ''title''"
      if "r \<in> set rows" for r
      using createPaperRecord_part004_title[of "csvHeaders_part004 hdr" "parseCSVLine_part004 (trim r)"]
        ok that
      by (auto simp: rowOk_part004_def)
    show ?thesis
      unfolding parseCSV_part004_all[OF nl ok] using t by simp
  qed
  have C: "length (parseCSV sampleCSVData) = 2
     \<and> title (parseCSV sampleCSVData ! 0) = ''Test Paper 1''
     \<and> length (authors (parseCSV sampleCSVData ! 0)) = 2"
    using sample_first by (simp add: sample_parse)
  have D: "length (parseCSV_part004 sampleCSVData) = 2
     \<and> title (parseCSV_part004 sampleCSVData ! 0) = ''Test Paper 1''
     \<and> length (authors (parseCSV_part004 sampleCSVData ! 0)) = 2"
    using sample_first_part004 by (simp add: sample_parse_part004)
  from A B C D show ?thesis by blast
qed

theorem parseCSV_one_record_per_row_witness:
  "rowOk (csvHeaders ''Title,Author'') ''Short,Ann''
   \<and> rowOk (csvHeaders ''Title,Author'') ''A longer title,Bob''
   \<and> rowOk_part004 (csvHeaders_part004 ''Title,Author'') ''Short,Ann''
   \<and> rowOk_part004 (csvHeaders_part004 ''Title,Author'') ''A longer title,Bob''
   \<and> length (parseCSV (join [newline] [''Title,Author'', ''Short,Ann'', ''A longer title,Bob''])) = 2
   \<and> length (parseCSV_part004
        (join [newline] [''Title,Author'', ''Short,Ann'', ''A longer title,Bob''])) = 2"
proof -
  have nl: "\<forall>l\<in>set (''Title,Author'' # [''Short,Ann'', ''A longer title,Bob'']). newline \<notin> set l"
    by (simp add: newline_def)
  have h: "csvHeaders ''Title,Author'' = [''Title'', ''Author'']"
          "csvHeaders_part004 ''Title,Author'' = [''Title'', ''Author'']"
    by (simp_all add: csvHeaders_def csvHeaders_part004_def split_char_def
          parseCSVLine_part004_def char_eval)
  have r1: "rowOk [''Title'', ''Author''] ''Short,Ann''"
           "rowOk_part004 [''Title'', ''Author''] ''Short,Ann''"
    by (simp_all add: rowOk_def rowOk_part004_def parseCSVLine_def parseCSVLine_part004_def
          getField_eval char_eval)
  have r2: "rowOk [''Title'', ''Author''] ''A longer title,Bob''"
           "rowOk_part004 [''Title'', ''Author''] ''A longer title,Bob''"
    by (simp_all add: rowOk_def rowOk_part004_def parseCSVLine_def parseCSVLine_part004_def
          getField_eval char_eval)
  have ok: "\<forall>r\<in>set [''Short,Ann'', ''A longer title,Bob'']. rowOk (csvHeaders ''Title,Author'') r"
    using r1 r2 by (simp add: h)
  have ok4: "\<forall>r\<in>set [''Short,Ann'', ''A longer title,Bob''].
      rowOk_part004 (csvHeaders_part004 ''Title,Author'') r"
    using r1 r2 by (simp add: h)
  note T = parseCSV_one_record_per_row[of "''Title,Author''" "[''Short,Ann'', ''A longer title,Bob'']"]
  have a: "length (parseCSV (join [newline] [''Title,Author'', ''Short,Ann'', ''A longer title,Bob''])) = 2"
    using mp[OF conjunct1[OF T] conjI[OF nl ok]] by simp
  have b: "length (parseCSV_part004
        (join [newline] [''Title,Author'', ''Short,Ann'', ''A longer title,Bob''])) = 2"
    using mp[OF conjunct1[OF conjunct2[OF T]] conjI[OF nl ok4]] by simp
  show ?thesis
    using r1 r2 a b unfolding h by (intro conjI)
qed

text \<open>
  The claim as stated fails on the enhanced parser: a row whose resolved title is the
  three characters \<open>Abc\<close> gives no record (\<open>title.length < 5\<close>).
\<close>

theorem parseCSV_short_title_counterexample:
  "trim ''Abc'' \<noteq> []
   \<and> length (csvHeaders_part004 ''Title'') \<le> length (parseCSVLine_part004 (trim ''Abc''))
   \<and> getField_part004 (csvHeaders_part004 ''Title'') (parseCSVLine_part004 (trim ''Abc'')) ''title''
       = ''Abc''
   \<and> parseCSV_part004 (''Title'' @ [newline] @ ''Abc'') = []"
  by (simp add: parseCSV_part004_def csvHeaders_part004_def parseCSVLine_part004_def
        split_char_def createPaperRecord_part004_def getField_eval char_eval Let_def)

section \<open>Duplicate titles\<close>


lemma removeDuplicatePapers_loop_step:
  "removeDuplicatePapers_loop (p # ps) unique seen =
     (if normTitle p \<notin> seen
      then removeDuplicatePapers_loop ps (unique @ [p]) (insert (normTitle p) seen)
      else removeDuplicatePapers_loop ps unique seen)"
  by (simp add: normTitle_def Let_def)

lemma removeDuplicatePapers_loop_nths:
  "removeDuplicatePapers_loop ps unique seen =
     unique @ nths ps {i. normTitle (ps ! i) \<notin> seen
                          \<and> (\<forall>j<i. normTitle (ps ! j) \<noteq> normTitle (ps ! i))}"
proof (induction ps arbitrary: unique seen)
  case Nil
  then show ?case by simp
next
  case (Cons p ps)
  let ?A = "{i. normTitle ((p # ps) ! i) \<notin> seen
                \<and> (\<forall>j<i. normTitle ((p # ps) ! j) \<noteq> normTitle ((p # ps) ! i))}"
  have n: "nths (p # ps) ?A = (if 0 \<in> ?A then [p] else []) @ nths ps {j. Suc j \<in> ?A}"
    by (rule nths_Cons)
  have z: "0 \<in> ?A \<longleftrightarrow> normTitle p \<notin> seen" by simp
  show ?case
  proof (cases "normTitle p \<in> seen")
    case True
    have eq: "{j. Suc j \<in> ?A}
          = {i. normTitle (ps ! i) \<notin> seen \<and> (\<forall>j<i. normTitle (ps ! j) \<noteq> normTitle (ps ! i))}"
      using True by (auto simp: less_Suc_eq_0_disj)
    show ?thesis
      unfolding n z eq removeDuplicatePapers_loop_step Cons.IH using True by simp
  next
    case False
    have eq: "{j. Suc j \<in> ?A}
          = {i. normTitle (ps ! i) \<notin> insert (normTitle p) seen
                \<and> (\<forall>j<i. normTitle (ps ! j) \<noteq> normTitle (ps ! i))}"
      by (auto simp: less_Suc_eq_0_disj)
    show ?thesis
      unfolding n z eq removeDuplicatePapers_loop_step Cons.IH using False by simp
  qed
qed

lemma removeDuplicatePapers_loop_distinct:
  "distinct (map normTitle unique) \<Longrightarrow> normTitle ` set unique \<subseteq> seen \<Longrightarrow>
   distinct (map normTitle (removeDuplicatePapers_loop ps unique seen))"
proof (induction ps arbitrary: unique seen)
  case Nil
  then show ?case by simp
next
  case (Cons p ps)
  show ?case
  proof (cases "normTitle p \<in> seen")
    case True
    with Cons show ?thesis by (simp add: removeDuplicatePapers_loop_step del: removeDuplicatePapers_loop.simps)
  next
    case False
    have "distinct (map normTitle (removeDuplicatePapers_loop ps (unique @ [p]) (insert (normTitle p) seen)))"
      using Cons.prems False by (intro Cons.IH) auto
    with False show ?thesis by (simp add: removeDuplicatePapers_loop_step del: removeDuplicatePapers_loop.simps)
  qed
qed

lemma removeDuplicatePapers_loop_titles:
  "normTitle ` set (removeDuplicatePapers_loop ps unique seen) =
     normTitle ` set unique \<union> (normTitle ` set ps - seen)"
proof (induction ps arbitrary: unique seen)
  case Nil
  then show ?case by simp
next
  case (Cons p ps)
  show ?case
  proof (cases "normTitle p \<in> seen")
    case True
    then have e: "removeDuplicatePapers_loop (p # ps) unique seen =
               removeDuplicatePapers_loop ps unique seen"
      by (simp only: removeDuplicatePapers_loop_step) simp
    show ?thesis
      unfolding e Cons.IH using True by auto
  next
    case False
    then have e: "removeDuplicatePapers_loop (p # ps) unique seen =
               removeDuplicatePapers_loop ps (unique @ [p]) (insert (normTitle p) seen)"
      by (simp only: removeDuplicatePapers_loop_step) simp
    show ?thesis
      unfolding e Cons.IH using False by auto
  qed
qed

text \<open>
  C6. \<open>removeDuplicatePapers\<close> returns the papers at exactly those positions of the
  input whose normalized title (lower case, punctuation removed, white space collapsed)
  does not occur at an earlier position: the first occurrence of every normalized title
  is kept and every later one dropped. So the result is a subsequence of the input, its
  normalized titles are pairwise distinct, and they are the normalized titles of the
  input.
\<close>

theorem removeDuplicatePapers_first_occurrences:
  "removeDuplicatePapers papers =
     nths papers {i. \<forall>j<i. normTitle (papers ! j) \<noteq> normTitle (papers ! i)}
   \<and> subseq (removeDuplicatePapers papers) papers
   \<and> distinct (map normTitle (removeDuplicatePapers papers))
   \<and> normTitle ` set (removeDuplicatePapers papers) = normTitle ` set papers"
proof -
  have a: "removeDuplicatePapers papers =
     nths papers {i. \<forall>j<i. normTitle (papers ! j) \<noteq> normTitle (papers ! i)}"
    by (simp add: removeDuplicatePapers_def removeDuplicatePapers_loop_nths)
  have b: "subseq (removeDuplicatePapers papers) papers"
    unfolding subseq_conv_nths using a by (rule exI)
  have c: "distinct (map normTitle (removeDuplicatePapers papers))"
    unfolding removeDuplicatePapers_def by (rule removeDuplicatePapers_loop_distinct) simp_all
  have d: "normTitle ` set (removeDuplicatePapers papers) = normTitle ` set papers"
    by (simp add: removeDuplicatePapers_def removeDuplicatePapers_loop_titles)
  from a b c d show ?thesis by blast
qed


theorem removeDuplicatePapers_first_occurrences_witness:
  "removeDuplicatePapers
     [mkPaper ''a'' ''Hello, World!'', mkPaper ''b'' ''  hello   WORLD'', mkPaper ''c'' ''Other'']
     = [mkPaper ''a'' ''Hello, World!'', mkPaper ''c'' ''Other'']
   \<and> subseq
       (removeDuplicatePapers
          [mkPaper ''a'' ''Hello, World!'', mkPaper ''b'' ''  hello   WORLD'', mkPaper ''c'' ''Other''])
       [mkPaper ''a'' ''Hello, World!'', mkPaper ''b'' ''  hello   WORLD'', mkPaper ''c'' ''Other'']
   \<and> distinct (map normTitle
       (removeDuplicatePapers
          [mkPaper ''a'' ''Hello, World!'', mkPaper ''b'' ''  hello   WORLD'', mkPaper ''c'' ''Other'']))"
proof -
  let ?ps = "[mkPaper ''a'' ''Hello, World!'', mkPaper ''b'' ''  hello   WORLD'', mkPaper ''c'' ''Other'']"
  have e: "removeDuplicatePapers ?ps = [mkPaper ''a'' ''Hello, World!'', mkPaper ''c'' ''Other'']"
    by (simp add: removeDuplicatePapers_def mkPaper_def normalizeTitleForComparison_def char_eval)
  note T = removeDuplicatePapers_first_occurrences[of ?ps]
  have s: "subseq (removeDuplicatePapers ?ps) ?ps"
    by (rule conjunct1[OF conjunct2[OF T]])
  have d: "distinct (map normTitle (removeDuplicatePapers ?ps))"
    by (rule conjunct1[OF conjunct2[OF conjunct2[OF T]]])
  show ?thesis
    by (intro conjI e s d)
qed

section \<open>The partition of a dataset\<close>


lemma validatePaperRecord_isValid:
  "isValid (validatePaperRecord urlParses p) = hasTitle p"
  by (auto simp add: validatePaperRecord_def hasTitle_def Let_def trim_def)

lemma validatePaperDataset_loop_inv:
  "validatePaperDataset_loop urlParses ps (valid, invalid, seen, dups, n) =
     (valid', invalid', seen', dups', n') \<Longrightarrow>
   valid' = valid @ filter hasTitle ps
   \<and> invalid' = invalid @ map (\<lambda>p. (p, validatePaperRecord urlParses p))
                             (filter (\<lambda>p. \<not> hasTitle p) ps)
   \<and> dups' = dups @ map key (nths ps {i. key (ps ! i) \<in> seen
                                          \<or> (\<exists>j<i. key (ps ! j) = key (ps ! i))})"
proof (induction ps arbitrary: valid invalid seen dups n)
  case Nil
  then show ?case by simp
next
  case (Cons p ps)
  let ?A = "{i. key ((p # ps) ! i) \<in> seen \<or> (\<exists>j<i. key ((p # ps) ! j) = key ((p # ps) ! i))}"
  let ?B = "{i. key (ps ! i) \<in> insert (key p) seen \<or> (\<exists>j<i. key (ps ! j) = key (ps ! i))}"
  let ?dups = "if key p \<in> seen then dups @ [key p] else dups"
  have nA: "nths (p # ps) ?A = (if 0 \<in> ?A then [p] else []) @ nths ps {j. Suc j \<in> ?A}"
    by (rule nths_Cons)
  have z: "0 \<in> ?A \<longleftrightarrow> key p \<in> seen" by simp
  have eq: "{j. Suc j \<in> ?A} = ?B"
    by (auto simp: less_Suc_eq_0_disj)
  have d: "dups @ map key (nths (p # ps) ?A) = ?dups @ map key (nths ps ?B)"
    unfolding nA eq z by simp
  show ?case
  proof (cases "hasTitle p")
    case True
    from Cons.prems True obtain m where
      "validatePaperDataset_loop urlParses ps
         (valid @ [p], invalid, insert (key p) seen, ?dups, m) =
       (valid', invalid', seen', dups', n')"
      by (simp add: Let_def validatePaperRecord_isValid)
    from Cons.IH[OF this] True show ?thesis
      unfolding d by simp
  next
    case False
    from Cons.prems False have
      "validatePaperDataset_loop urlParses ps
         (valid, invalid @ [(p, validatePaperRecord urlParses p)], insert (key p) seen,
          ?dups, n) =
       (valid', invalid', seen', dups', n')"
      by (simp add: Let_def validatePaperRecord_isValid)
    from Cons.IH[OF this] False show ?thesis
      unfolding d by simp
  qed
qed

text \<open>
  C10. \<open>validatePaperDataset\<close> partitions its input: \<open>validPapers\<close> is the list of the
  input papers that have a title (not empty after trimming), \<open>invalidPapers\<close> holds the
  others, both in input order and unchanged, so the two lengths add up to
  \<open>overallStats.totalPapers\<close>, which is the length of the input. A key that occurs at an
  earlier position is only listed in \<open>duplicateKeys\<close> (once per later occurrence): what
  \<open>validPapers\<close> holds does not depend on the keys. All this for every answer of the
  platform's URL parser.
\<close>

theorem validatePaperDataset_partition:
  "validPapers (validatePaperDataset urlParses papers) = filter hasTitle papers
   \<and> map fst (invalidPapers (validatePaperDataset urlParses papers)) = filter (\<lambda>p. \<not> hasTitle p) papers
   \<and> length (validPapers (validatePaperDataset urlParses papers))
       + length (invalidPapers (validatePaperDataset urlParses papers))
       = stats_totalPapers (overallStats (validatePaperDataset urlParses papers))
   \<and> stats_totalPapers (overallStats (validatePaperDataset urlParses papers)) = length papers
   \<and> stats_validPapers (overallStats (validatePaperDataset urlParses papers))
       = length (filter hasTitle papers)
   \<and> duplicateKeys (overallStats (validatePaperDataset urlParses papers))
       = map key (nths papers {i. \<exists>j<i. key (papers ! j) = key (papers ! i)})"
proof -
  obtain valid invalid seen dups n where
    l: "validatePaperDataset_loop urlParses papers ([], [], {}, [], 0) = (valid, invalid, seen, dups, n)"
    by (metis prod_cases5)
  from validatePaperDataset_loop_inv[OF l] have
    v: "valid = filter hasTitle papers"
    and i: "invalid = map (\<lambda>p. (p, validatePaperRecord urlParses p)) (filter (\<lambda>p. \<not> hasTitle p) papers)"
    and d: "dups = map key (nths papers {i. \<exists>j<i. key (papers ! j) = key (papers ! i)})"
    by simp_all
  have len: "length (filter hasTitle papers) + length (filter (\<lambda>p. \<not> hasTitle p) papers) = length papers"
    by (rule sum_length_filter_compl)
  show ?thesis
    using len by (simp add: validatePaperDataset_def l v i d comp_def)
qed
theorem validatePaperDataset_partition_witness:
  "validPapers (validatePaperDataset (\<lambda>u. True)
       [mkPaper ''k1'' ''A title'', mkPaper ''k1'' ''   '', mkPaper ''k1'' ''Another''])
     = [mkPaper ''k1'' ''A title'', mkPaper ''k1'' ''Another'']
   \<and> map fst (invalidPapers (validatePaperDataset (\<lambda>u. True)
       [mkPaper ''k1'' ''A title'', mkPaper ''k1'' ''   '', mkPaper ''k1'' ''Another'']))
     = [mkPaper ''k1'' ''   '']
   \<and> stats_totalPapers (overallStats (validatePaperDataset (\<lambda>u. True)
       [mkPaper ''k1'' ''A title'', mkPaper ''k1'' ''   '', mkPaper ''k1'' ''Another''])) = 3
   \<and> duplicateKeys (overallStats (validatePaperDataset (\<lambda>u. True)
       [mkPaper ''k1'' ''A title'', mkPaper ''k1'' ''   '', mkPaper ''k1'' ''Another'']))
     = [''k1'', ''k1'']"
proof -
  let ?ps = "[mkPaper ''k1'' ''A title'', mkPaper ''k1'' ''   '', mkPaper ''k1'' ''Another'']"
  have h: "hasTitle (mkPaper ''k1'' ''A title'')" "\<not> hasTitle (mkPaper ''k1'' ''   '')"
    "hasTitle (mkPaper ''k1'' ''Another'')"
    by (simp_all add: hasTitle_def mkPaper_def trim_def is_space_def)
  have d: "duplicateKeys (overallStats (validatePaperDataset (\<lambda>u. True) ?ps)) = [''k1'', ''k1'']"
    by (simp add: validatePaperDataset_def validatePaperRecord_isValid h Let_def)
       (simp add: mkPaper_def)
  note T = validatePaperDataset_partition[of "\<lambda>u. True" ?ps]
  have v: "validPapers (validatePaperDataset (\<lambda>u. True) ?ps)
      = [mkPaper ''k1'' ''A title'', mkPaper ''k1'' ''Another'']"
    using conjunct1[OF T] h by simp
  have i: "map fst (invalidPapers (validatePaperDataset (\<lambda>u. True) ?ps)) = [mkPaper ''k1'' ''   '']"
    using conjunct1[OF conjunct2[OF T]] h by simp
  have n: "stats_totalPapers (overallStats (validatePaperDataset (\<lambda>u. True) ?ps)) = 3"
    using conjunct1[OF conjunct2[OF conjunct2[OF conjunct2[OF T]]]] by simp
  show ?thesis
    by (intro conjI v i n d)
qed

section \<open>Whole-word occurrences and the topic score\<close>


lemma wordAtP_False: "wordAtP False = wordAt"
  by (intro ext) (auto simp: wordAtP_def wordAt_def)

lemma filter_upt_Suc:
  "filter P [0..<Suc n] = (if P 0 then [0] else []) @ map Suc (filter (P \<circ> Suc) [0..<n])"
proof -
  have "[0..<Suc n] = 0 # map Suc [0..<n]"
    by (simp add: upt_conv_Cons map_Suc_upt del: upt_Suc)
  then show ?thesis by (simp add: filter_map del: upt_Suc)
qed

lemma wordAtP_Suc:
  "wordAtP pw kw (c # cs) (Suc i) = wordAtP (is_word c) kw cs i"
  by (cases i) (auto simp: wordAtP_def)

lemma count_nomatch:
  "\<not> wordAtP pw kw (c # cs) 0 \<Longrightarrow>
   length (filter (wordAtP pw kw (c # cs)) [0..<length (c # cs)]) =
   length (filter (wordAtP (is_word c) kw cs) [0..<length cs])"
  using filter_upt_Suc[of "wordAtP pw kw (c # cs)" "length cs"]
  by (simp add: comp_def wordAtP_Suc del: upt_Suc)

lemma wordAtP_inside:
  assumes kw: "list_all is_word kw" and m: "take (length kw) text = kw"
    and i: "0 < i" "i < length kw"
  shows "\<not> wordAtP pw kw text i"
proof -
  from i have "i - 1 < length kw" by simp
  have "take (length kw) text ! (i - 1) = text ! (i - 1)"
    by (rule nth_take) fact
  then have "text ! (i - 1) = kw ! (i - 1)"
    by (simp add: m)
  moreover have "is_word (kw ! (i - 1))"
    using kw \<open>i - 1 < length kw\<close> by (simp add: list_all_length)
  ultimately show ?thesis using i by (simp add: wordAtP_def)
qed

lemma wordAtP_after:
  assumes kw: "list_all is_word kw" "kw \<noteq> []" and m: "take (length kw) text = kw"
    and l: "length kw \<le> length text"
  shows "wordAtP pw kw text (length kw + j) = wordAtP True kw (drop (length kw) text) j"
proof (cases j)
  case 0
  have "is_word (text ! (length kw - 1))"
  proof -
    have "take (length kw) text ! (length kw - 1) = text ! (length kw - 1)"
      using kw(2) by (intro nth_take) simp
    then have "text ! (length kw - 1) = kw ! (length kw - 1)"
      by (simp add: m)
    moreover have "is_word (kw ! (length kw - 1))"
      using kw by (simp add: list_all_length)
    ultimately show ?thesis by simp
  qed
  with 0 kw(2) show ?thesis by (simp add: wordAtP_def)
next
  case (Suc k)
  then show ?thesis
    using l by (auto simp: wordAtP_def add.commute add.left_commute)
qed

lemma count_match:
  assumes kw: "list_all is_word kw" "kw \<noteq> []"
    and w: "wordAtP pw kw text 0"
  shows "length (filter (wordAtP pw kw text) [0..<length text]) =
         1 + length (filter (wordAtP True kw (drop (length kw) text)) [0..<length (drop (length kw) text)])"
proof -
  from w have l: "length kw \<le> length text" and m: "take (length kw) text = kw"
    by (simp_all add: wordAtP_def)
  define d where "d = length text - length kw"
  have lt: "length text = length kw + d" using l by (simp add: d_def)
  have "[0..<length kw + d] = [0..<length kw] @ [length kw..<length kw + d]"
    by (rule upt_add_eq_append) simp
  moreover have "map (\<lambda>j. j + length kw) [0..<d] = [length kw..<d + length kw]"
    by (rule map_add_upt)
  ultimately have split: "[0..<length text] =
      [0..<length kw] @ map (\<lambda>j. length kw + j) [0..<length text - length kw]"
    unfolding lt by (simp add: add.commute)
  have first: "filter (wordAtP pw kw text) [0..<length kw] = [0]"
  proof -
    obtain n where n: "length kw = Suc n" using kw(2) by (cases kw) auto
    have "filter (wordAtP pw kw text \<circ> Suc) [0..<n] = []"
      using wordAtP_inside[OF kw(1) m] n by (auto simp: filter_empty_conv)
    then show ?thesis
      unfolding n filter_upt_Suc using w by simp
  qed
  have second: "filter (wordAtP pw kw text) (map (\<lambda>j. length kw + j) [0..<length text - length kw])
      = map (\<lambda>j. length kw + j) (filter (wordAtP True kw (drop (length kw) text)) [0..<length text - length kw])"
    by (simp add: filter_map comp_def wordAtP_after[OF kw m l])
  show ?thesis
    unfolding split by (simp add: first second del: upt_Suc)
qed

lemma countMatches_eq:
  "list_all is_word kw \<Longrightarrow> kw \<noteq> [] \<Longrightarrow>
   countMatches kw pw s = length (filter (wordAtP pw kw s) [0..<length s])"
proof (induction kw pw s rule: countMatches.induct)
  case (1 keyword prevWord)
  then show ?case by simp
next
  case (2 keyword prevWord c cs)
  let ?cond = "keyword \<noteq> [] \<and> \<not> prevWord \<and> startsWith (c # cs) keyword
     \<and> (case drop (length keyword) (c # cs) of [] \<Rightarrow> True | r # _ \<Rightarrow> \<not> is_word r)"
  have cond: "?cond \<longleftrightarrow> wordAtP prevWord keyword (c # cs) 0"
  proof -
    have a: "length keyword \<le> length (c # cs)" if "take (length keyword) (c # cs) = keyword"
      using arg_cong[OF that, of length] by simp
    have b: "(case drop (length keyword) (c # cs) of [] \<Rightarrow> True | r # _ \<Rightarrow> \<not> is_word r)
        \<longleftrightarrow> (length keyword = length (c # cs) \<or> \<not> is_word ((c # cs) ! length keyword))"
      if "length keyword \<le> length (c # cs)"
    proof (cases "drop (length keyword) (c # cs)")
      case Nil
      with that show ?thesis by simp
    next
      case (Cons r rs)
      then have "length (drop (length keyword) (c # cs)) = Suc (length rs)"
        by simp
      then have lt: "length keyword < length (c # cs)"
        by simp
      have "hd (drop (length keyword) (c # cs)) = (c # cs) ! length keyword"
        by (rule hd_drop_conv_nth[OF lt])
      with Cons have "(c # cs) ! length keyword = r" by simp
      with lt show ?thesis using Cons by simp
    qed
    show ?thesis
      using a b "2.prems"(2) by (auto simp: wordAtP_def startsWith_def)
  qed
  show ?case
  proof (cases ?cond)
    case True
    have "countMatches keyword prevWord (c # cs) =
          1 + countMatches keyword True (drop (length keyword) (c # cs))"
      by (simp only: countMatches.simps(2) True if_True simp_thms)
    also have "countMatches keyword True (drop (length keyword) (c # cs)) =
        length (filter (wordAtP True keyword (drop (length keyword) (c # cs)))
                  [0..<length (drop (length keyword) (c # cs))])"
      using True "2.prems" by (intro "2.IH"(1)) simp_all
    finally have "countMatches keyword prevWord (c # cs) =
        1 + length (filter (wordAtP True keyword (drop (length keyword) (c # cs)))
                  [0..<length (drop (length keyword) (c # cs))])" .
    then show ?thesis
      by (simp only: count_match[OF "2.prems" cond[THEN iffD1, OF True]])
  next
    case False
    have "countMatches keyword prevWord (c # cs) = countMatches keyword (is_word c) cs"
      by (simp only: countMatches.simps(2) False if_False)
    also have "\<dots> = length (filter (wordAtP (is_word c) keyword cs) [0..<length cs])"
      using False "2.prems" by (intro "2.IH"(2)) simp_all
    finally have "countMatches keyword prevWord (c # cs) =
        length (filter (wordAtP (is_word c) keyword cs) [0..<length cs])" .
    moreover have nm: "\<not> wordAtP prevWord keyword (c # cs) 0"
      using False cond by blast
    ultimately show ?thesis
      by (simp only: count_nomatch[OF nm])
  qed
qed

lemma countMatches_wholeWordOccurrences:
  "list_all is_word kw \<Longrightarrow> kw \<noteq> [] \<Longrightarrow> countMatches kw False text = wholeWordOccurrences kw text"
  by (simp add: countMatches_eq wordAtP_False wholeWordOccurrences_def)

lemma TOPIC_KEYWORDS_wellformed:
  "\<forall>(topic, keywords)\<in>set TOPIC_KEYWORDS. \<forall>k\<in>set keywords. list_all is_word k \<and> k \<noteq> []"
  by (simp add: TOPIC_KEYWORDS_def is_word_Char)

lemma TOPIC_KEYWORDS_distinct: "distinct (map fst TOPIC_KEYWORDS)"
  by (simp add: TOPIC_KEYWORDS_def)

lemma topicScore_occurrences:
  assumes "(topic, keywords) \<in> set TOPIC_KEYWORDS"
  shows "topicScore s keywords = keywordOccurrences keywords s"
proof -
  from assms TOPIC_KEYWORDS_wellformed
  have "\<forall>k\<in>set keywords. list_all is_word k \<and> k \<noteq> []" by blast
  then have "map (\<lambda>k. countMatches k False s) keywords =
             map (\<lambda>k. wholeWordOccurrences k s) keywords"
    by (intro map_cong) (simp_all add: countMatches_wholeWordOccurrences)
  then show ?thesis
    unfolding topicScore_def keywordOccurrences_def by (rule arg_cong)
qed

lemma map_of_map_entry:
  "distinct (map fst xs) \<Longrightarrow> (k, v) \<in> set xs \<Longrightarrow>
   map_of (map (\<lambda>(a, b). (a, f b)) xs) k = Some (f v)"
  by (induction xs) (auto simp: rev_image_eqI)

lemma classifyPaperTopics_lookup:
  assumes "(topic, keywords) \<in> set TOPIC_KEYWORDS"
  shows "map_of (classifyPaperTopics paper) topic =
     Some (of_nat (keywordOccurrences keywords (fullText paper))
             / max (of_nat (length (fullText paper)) / 100) 1)"
  unfolding classifyPaperTopics_def
  using map_of_map_entry[OF TOPIC_KEYWORDS_distinct assms,
      of "\<lambda>keywords. of_nat (topicScore (fullText paper) keywords)
                       / max (of_nat (length (fullText paper)) / 100) (1::rat)"]
  by (simp add: topicScore_occurrences[OF assms])

text \<open>
  C4, as the code has it. \<open>classifyPaperTopics\<close> gives every topic of the table a score.
  The score is the number of whole-word occurrences of the topic's keywords in the lower
  case concatenation of title, abstract and tags, divided by
  \<open>max (length / 100) 1\<close>: by \<open>length / 100\<close> when the text has at least 100
  characters, and by 1 (the bare count) when it is shorter.
\<close>

theorem classifyPaperTopics_normalization:
  "map fst (classifyPaperTopics paper) = map fst TOPIC_KEYWORDS
   \<and> ((topic, keywords) \<in> set TOPIC_KEYWORDS \<longrightarrow>
        map_of (classifyPaperTopics paper) topic =
          Some (if 100 \<le> length (fullText paper)
                then of_nat (keywordOccurrences keywords (fullText paper))
                       / (of_nat (length (fullText paper)) / 100)
                else of_nat (keywordOccurrences keywords (fullText paper))))"
proof -
  have a: "map fst (classifyPaperTopics paper) = map fst TOPIC_KEYWORDS"
    by (simp add: classifyPaperTopics_def split_def comp_def)
  have m: "max (of_nat (length (fullText paper)) / 100) (1::rat) =
      (if 100 \<le> length (fullText paper) then of_nat (length (fullText paper)) / 100 else 1)"
    by (simp add: max_def)
  have b: "map_of (classifyPaperTopics paper) topic =
          Some (if 100 \<le> length (fullText paper)
                then of_nat (keywordOccurrences keywords (fullText paper))
                       / (of_nat (length (fullText paper)) / 100)
                else of_nat (keywordOccurrences keywords (fullText paper)))"
    if "(topic, keywords) \<in> set TOPIC_KEYWORDS"
    unfolding classifyPaperTopics_lookup[OF that] m by simp
  from a b show ?thesis by blast
qed

text \<open>
  Two steps of the scan that need no look at the rest of the text: after a word
  character nothing matches, and a first character other than the keyword's does not
  start a match.
\<close>

lemma countMatches_after_word:
  "countMatches keyword True (c # cs) = countMatches keyword (is_word c) cs"
  by simp

lemma countMatches_first_char:
  "countMatches (k # ks) False (c # cs) =
     (if c = k then
        (if startsWith cs ks \<and> (case drop (length ks) cs of [] \<Rightarrow> True | r # _ \<Rightarrow> \<not> is_word r)
         then 1 + countMatches (k # ks) True (drop (length ks) cs)
         else countMatches (k # ks) (is_word c) cs)
      else countMatches (k # ks) (is_word c) cs)"
  by (simp add: startsWith_def)

lemmas countMatches_eval = countMatches.simps(1) countMatches_after_word countMatches_first_char
  startsWith_def is_word_Char

lemma security_entry: "(''security'', securityKeywords) \<in> set TOPIC_KEYWORDS"
  by (simp add: TOPIC_KEYWORDS_def securityKeywords_def)

lemma fullText_security: "fullText (mkPaper ''k'' ''security'') = ''security  ''"
  by (simp add: fullText_def mkPaper_def toLowerCase_def toLowerChar_Char)

lemma occurrences_security:
  "keywordOccurrences securityKeywords ''security  '' = 1"
proof -
  have "topicScore ''security  '' securityKeywords = 1"
    by (simp add: topicScore_def securityKeywords_def countMatches_eval
          del: countMatches.simps(2))
  then show ?thesis by (simp add: topicScore_occurrences[OF security_entry])
qed

text \<open>
  The claim as stated fails on a text shorter than 100 characters: for the paper with
  the title \<open>security\<close> and nothing else the text has 10 characters and one occurrence,
  the score is 1, and the count divided by \<open>length / 100\<close> is 10.
\<close>

theorem short_text_score_counterexample:
  "map_of (classifyPaperTopics (mkPaper ''k'' ''security'')) ''security'' = Some 1
   \<and> length (fullText (mkPaper ''k'' ''security'')) = 10
   \<and> keywordOccurrences securityKeywords (fullText (mkPaper ''k'' ''security'')) = 1
   \<and> (of_nat (keywordOccurrences securityKeywords (fullText (mkPaper ''k'' ''security'')))
        / (of_nat (length (fullText (mkPaper ''k'' ''security''))) / 100) :: rat) = 10"
  by (simp add: classifyPaperTopics_lookup[OF security_entry] fullText_security occurrences_security)

lemma fullText_longPaper:
  "fullText longPaper =
     ''security of networks a study of attack and defense in security games, with an analysis of cyber risk for networks. ''"
  by (simp add: fullText_def longPaper_def mkPaper_def toLowerCase_def toLowerChar_Char)

lemma occurrences_longPaper:
  "keywordOccurrences securityKeywords (fullText longPaper) = 5"
proof -
  have "topicScore (fullText longPaper) securityKeywords = 5"
    unfolding fullText_longPaper
    by (simp add: topicScore_def securityKeywords_def countMatches_eval
          del: countMatches.simps(2))
  then show ?thesis by (simp add: topicScore_occurrences[OF security_entry])
qed

theorem classifyPaperTopics_normalization_witness:
  "(''security'', securityKeywords) \<in> set TOPIC_KEYWORDS
   \<and> length (fullText longPaper) = 115
   \<and> map_of (classifyPaperTopics longPaper) ''security'' = Some (100 / 23)
   \<and> length (fullText (mkPaper ''k'' ''security'')) = 10
   \<and> map_of (classifyPaperTopics (mkPaper ''k'' ''security'')) ''security'' = Some 1"
proof -
  note T1 = classifyPaperTopics_normalization[of longPaper "''security''" securityKeywords]
  note T2 = classifyPaperTopics_normalization[of "mkPaper ''k'' ''security''" "''security''"
      securityKeywords]
  have l1: "length (fullText longPaper) = 115"
    unfolding fullText_longPaper by simp
  have l2: "length (fullText (mkPaper ''k'' ''security'')) = 10"
    unfolding fullText_security by simp
  have a: "map_of (classifyPaperTopics longPaper) ''security'' = Some (100 / 23)"
    using mp[OF conjunct2[OF T1] security_entry]
    by (simp add: l1 occurrences_longPaper)
  have b: "map_of (classifyPaperTopics (mkPaper ''k'' ''security'')) ''security'' = Some 1"
    using mp[OF conjunct2[OF T2] security_entry]
    by (simp add: l2 fullText_security occurrences_security)
  show ?thesis
    by (intro conjI security_entry l1 a l2 b)
qed

section \<open>Similar author names\<close>


lemma startsWith_initial:
  "length a = 1 \<Longrightarrow> startsWith b a \<longleftrightarrow> b \<noteq> [] \<and> hd b = hd a"
  by (cases a; cases b) (auto simp: startsWith_def)

lemma countPartMatches_le:
  "countPartMatches ps qs \<le> length ps"
  by (induction ps qs rule: countPartMatches.induct) auto

lemma countPartMatches_all:
  "length ps = length qs \<Longrightarrow>
   countPartMatches ps qs = length ps \<longleftrightarrow>
     list_all2 (\<lambda>a b. a = b \<or> initialOf a b \<or> initialOf b a) ps qs"
proof (induction ps qs rule: list_induct2)
  case Nil
  then show ?case by simp
next
  case (Cons p ps q qs)
  have le: "countPartMatches ps qs \<le> length ps" by (rule countPartMatches_le)
  show ?case
    using Cons.IH le by (auto simp: initialOf_def startsWith_initial)
qed

lemma areAuthorNamesSimilar_iff:
  "areAuthorNamesSimilar name1 name2 \<longleftrightarrow> name1 = name2 \<or> tokensMatch name1 name2"
proof (cases "name1 = name2")
  case True
  then show ?thesis by (simp add: areAuthorNamesSimilar_def)
next
  case False
  show ?thesis
  proof (cases "length (split_char CHR '' '' name1) = length (split_char CHR '' '' name2)")
    case True
    with False countPartMatches_all[OF True] show ?thesis
      by (simp add: areAuthorNamesSimilar_def Let_def tokensMatch_def)
  next
    case ne: False
    then have "\<not> tokensMatch name1 name2"
      by (auto simp: tokensMatch_def dest: list_all2_lengthD)
    with False ne show ?thesis
      by (auto simp add: areAuthorNamesSimilar_def Let_def)
  qed
qed

lemmas name_eval = cleanAuthorName_def stripTitle_def suffixAt_def split_char_def char_eval

lemma clean_examples:
  "cleanAuthorName ''J. Smith'' = ''j. smith''"
  "cleanAuthorName ''J Smith'' = ''j smith''"
  "cleanAuthorName ''John Smith'' = ''john smith''"
  "cleanAuthorName ''Jane Smith'' = ''jane smith''"
  "cleanAuthorName ''Smith John'' = ''smith john''"
  by (simp_all add: name_eval)

text \<open>
  C2, as the code has it. Two names that are equal, or that match token by token, are
  similar; and two similar names that are not in swapped order are equal or match token
  by token. After cleaning, \<open>J Smith\<close> and \<open>John Smith\<close> are similar, and
  \<open>John Smith\<close> and \<open>Jane Smith\<close> are not. (Nothing is said here of two names in
  swapped order; see \<open>swapped_not_similar\<close> below.)
\<close>

theorem areAuthorNamesSimilar_rule:
  "(name1 = name2 \<or> tokensMatch name1 name2 \<longrightarrow> areAuthorNamesSimilar name1 name2)
   \<and> (areAuthorNamesSimilar name1 name2 \<and> \<not> swappedOrder name1 name2 \<longrightarrow>
        name1 = name2 \<or> tokensMatch name1 name2)
   \<and> areAuthorNamesSimilar (cleanAuthorName ''J Smith'') (cleanAuthorName ''John Smith'')
   \<and> \<not> areAuthorNamesSimilar (cleanAuthorName ''John Smith'') (cleanAuthorName ''Jane Smith'')"
proof -
  have a: "areAuthorNamesSimilar (cleanAuthorName ''J Smith'') (cleanAuthorName ''John Smith'')"
    unfolding clean_examples
    by (simp add: areAuthorNamesSimilar_def split_char_def startsWith_def)
  have b: "\<not> areAuthorNamesSimilar (cleanAuthorName ''John Smith'') (cleanAuthorName ''Jane Smith'')"
    unfolding clean_examples
    by (simp add: areAuthorNamesSimilar_def split_char_def startsWith_def)
  show ?thesis
    using a b by (simp add: areAuthorNamesSimilar_iff)
qed

text \<open>
  The claim as stated fails on its own example: cleaning keeps the period of \<open>J.\<close>, and
  the token \<open>j.\<close> has two characters, so it is not an initial of \<open>john\<close>.
\<close>

theorem initial_with_period_counterexample:
  "cleanAuthorName ''J. Smith'' = ''j. smith''
   \<and> cleanAuthorName ''John Smith'' = ''john smith''
   \<and> \<not> areAuthorNamesSimilar (cleanAuthorName ''J. Smith'') (cleanAuthorName ''John Smith'')"
  unfolding clean_examples
  by (simp add: areAuthorNamesSimilar_def split_char_def startsWith_def)

text \<open>
  The test for two names in swapped order comes after the branch for token lists of
  equal length has returned, so it is never reached: two such names are not similar.
\<close>

lemma swapped_not_similar:
  "swappedOrder ''john smith'' ''smith john'' \<and> \<not> areAuthorNamesSimilar ''john smith'' ''smith john''"
  by (simp add: areAuthorNamesSimilar_def swappedOrder_def split_char_def startsWith_def)

theorem areAuthorNamesSimilar_rule_witness:
  "tokensMatch ''j smith'' ''john smith''
   \<and> areAuthorNamesSimilar ''j smith'' ''john smith''
   \<and> \<not> swappedOrder ''j smith'' ''john smith''
   \<and> \<not> tokensMatch ''john smith'' ''jane smith''
   \<and> \<not> areAuthorNamesSimilar ''john smith'' ''jane smith''"
proof -
  note T = areAuthorNamesSimilar_rule[of "''j smith''" "''john smith''"]
  have t: "tokensMatch ''j smith'' ''john smith''"
    by (simp add: tokensMatch_def initialOf_def split_char_def)
  have s: "areAuthorNamesSimilar ''j smith'' ''john smith''"
    by (rule mp[OF conjunct1[OF T] disjI2[OF t]])
  have n: "\<not> swappedOrder ''j smith'' ''john smith''"
    by (simp add: swappedOrder_def split_char_def)
  have t2: "\<not> tokensMatch ''john smith'' ''jane smith''"
    by (simp add: tokensMatch_def initialOf_def split_char_def)
  have n2: "\<not> swappedOrder ''john smith'' ''jane smith''"
    by (simp add: swappedOrder_def split_char_def)
  have s2: "\<not> areAuthorNamesSimilar ''john smith'' ''jane smith''"
  proof
    assume h: "areAuthorNamesSimilar ''john smith'' ''jane smith''"
    from mp[OF conjunct1[OF conjunct2[OF areAuthorNamesSimilar_rule[of "''john smith''" "''jane smith''"]]]
            conjI[OF h n2]]
    show False using t2 by simp
  qed
  show ?thesis by (intro conjI t s n t2 s2)
qed

section \<open>Topical gaps of the pairs of topic clusters\<close>















lemma isPairGap_intersectionGap: "isPairGap (intersectionGap k x)"
  by (simp add: isPairGap_def intersectionGap_def)











lemma other_gap_is_stagnantGap:
  assumes "g \<in> set (analyzeTopicalGaps y n cs)" and "\<not> isPairGap g"
  shows "g = stagnantGap (identifyStagnantTopics y cs) (identifyEmergingTopics y cs)"
proof -
  let ?under = "underResearchedIntersections n cs"
  let ?gaps = "map (\<lambda>(index, x). intersectionGap index x) (zip [0..<length ?under] ?under)"
  have "g \<notin> set ?gaps"
    using assms(2) by (auto simp add: isPairGap_intersectionGap)
  then show ?thesis
    using assms(1) by (simp add: analyzeTopicalGaps_def Let_def split: if_splits)
qed







end
